theory Spec2Isabelle
  imports Complex_Main
begin

section \<open>The quiz-attempt ledger of QuizMaker\<close>

text \<open>
  This theory embeds \<^verbatim>\<open>lib/services/attempt-service.ts\<close> (startQuizAttempt,
  submitAnswer, submitQuizAttempt, getCompleteAttempt, abandonAttempt), the helpers
  \<^verbatim>\<open>toBool\<close> and \<^verbatim>\<open>fromBool\<close> of the D1 client, the statement
  \<^verbatim>\<open>UPDATE questions SET points = ?\<close> of updateQuestion in the quiz service, and the part
  of migration \<^verbatim>\<open>0001_initial_schema\<close> that these functions touch. The spec calls the
  four operations startAttempt (startQuizAttempt), recordAnswer (submitAnswer),
  submitAttempt (submitQuizAttempt) and abandonAttempt.

  The database is a record of tables, each table a list of rows in storage order.
  \<^verbatim>\<open>executeQueryFirst\<close> is \<^const>\<open>find\<close> (first matching row or \<open>None\<close>). Every service
  function takes the database and returns the database it leaves behind together with
  either the error it throws (\<open>Inl\<close>) or the value it returns (\<open>Inr\<close>), so that a throw
  after a write would be visible. \<^verbatim>\<open>generateId()\<close> and \<^verbatim>\<open>getCurrentTimestamp()\<close> are
  read from the environment: their results are parameters of the functions that call
  them. JavaScript numbers are modelled exactly: integer columns as \<^typ>\<open>int\<close>, the
  REAL column \<open>score\<close> as \<^typ>\<open>real\<close>; the rounding of IEEE doubles in the one
  division of the scoring formula is not modelled.
\<close>

subsection \<open>Rows and tables (migration 0001)\<close>

text \<open>Only the columns that the attempt service reads or writes are kept; of the table
  \<^verbatim>\<open>users\<close>, which it meets only through the foreign key of
  \<^verbatim>\<open>quiz_attempts.student_id\<close>, the ids. Column names carry a table prefix because
  record fields share one name space.\<close>

record quiz_row =
  qz_id :: string
  qz_is_published :: int

record question_row =
  q_id :: string
  q_quiz_id :: string
  q_points :: int

record option_row =
  opt_id :: string
  opt_question_id :: string
  opt_is_correct :: int

record attempt_row =
  att_id :: string
  att_student_id :: string
  att_quiz_id :: string
  att_score :: "real option"
  att_points_earned :: "int option"
  att_total_points :: "int option"
  att_started_at :: int
  att_submitted_at :: "int option"
  att_duration_seconds :: "int option"
  att_is_completed :: int

record answer_row =
  ans_id :: string
  ans_attempt_id :: string
  ans_question_id :: string
  ans_selected_option_id :: "string option"
  ans_is_correct :: int
  ans_points_earned :: int
  ans_answered_at :: int

record db =
  users :: "string list"
  quizzes :: "quiz_row list"
  questions :: "question_row list"
  answer_options :: "option_row list"
  quiz_attempts :: "attempt_row list"
  attempt_answers :: "answer_row list"

text \<open>Every \<^verbatim>\<open>throw new Error(msg)\<close> of the service is one constructor; the comment gives
  the message. \<open>StorageError\<close> is the failure of \<^verbatim>\<open>executeMutation\<close> when the database
  rejects a statement for a constraint of the schema.\<close>

datatype error =
    QuizNotFound                    \<comment> \<open>Quiz not found\<close>
  | QuizNotPublished                \<comment> \<open>Quiz is not published\<close>
  | IncompleteAttemptExists         \<comment> \<open>You have an incomplete attempt for this quiz ...\<close>
  | FailedToCreateAttempt           \<comment> \<open>Failed to create quiz attempt\<close>
  | AttemptNotFound                 \<comment> \<open>Attempt not found\<close>
  | CannotModifyCompleted           \<comment> \<open>Cannot modify answers for completed attempt\<close>
  | QuestionInvalid                 \<comment> \<open>Question not found or does not belong to this quiz\<close>
  | OptionInvalid                   \<comment> \<open>Option not found or does not belong to this question\<close>
  | FailedToSaveAnswer              \<comment> \<open>Failed to save answer\<close>
  | AttemptNotFoundOrAccessDenied   \<comment> \<open>Attempt not found or access denied\<close>
  | AttemptAlreadyCompleted         \<comment> \<open>Attempt already completed\<close>
  | CannotAbandonCompleted          \<comment> \<open>Cannot abandon completed attempt\<close>
  | QuestionNotFound                \<comment> \<open>Question not found (quiz service)\<close>
  | StorageError                    \<comment> \<open>the statement violates a constraint of the schema\<close>

subsection \<open>Helpers of the D1 client\<close>

definition toBool :: "int \<Rightarrow> bool" where
  "toBool v = (v = 1)"

definition fromBool :: "bool \<Rightarrow> int" where
  "fromBool b = (if b then 1 else 0)"

text \<open>JavaScript truthiness of a value of type \<^verbatim>\<open>string | null\<close>, as tested by
  \<^verbatim>\<open>if (selectedOptionId)\<close>: \<^verbatim>\<open>null\<close> and the empty string are falsy.\<close>

definition truthy :: "string option \<Rightarrow> bool" where
  "truthy s = (case s of None \<Rightarrow> False | Some t \<Rightarrow> t \<noteq> [])"

subsection \<open>The statements the service executes, under the schema's constraints\<close>

text \<open>The CHECK constraints of \<^verbatim>\<open>quiz_attempts\<close>.\<close>

definition attempt_checks :: "attempt_row \<Rightarrow> bool" where
  "attempt_checks a =
     ((att_is_completed a = 0 \<or> att_is_completed a = 1) \<and>
      (case att_score a of None \<Rightarrow> True | Some s \<Rightarrow> 0 \<le> s \<and> s \<le> 100))"

text \<open>\<^verbatim>\<open>INSERT INTO quiz_attempts\<close>: primary key, the two foreign keys, the checks.\<close>

definition insert_attempt :: "db \<Rightarrow> attempt_row \<Rightarrow> db option" where
  "insert_attempt d a =
     (if att_id a \<in> set (map att_id (quiz_attempts d)) then None
      else if att_student_id a \<notin> set (users d) then None
      else if att_quiz_id a \<notin> set (map qz_id (quizzes d)) then None
      else if \<not> attempt_checks a then None
      else Some (d\<lparr>quiz_attempts := quiz_attempts d @ [a]\<rparr>))"

text \<open>\<^verbatim>\<open>UPDATE quiz_attempts SET score = ?, points_earned = ?, total_points = ?,
  submitted_at = ?, duration_seconds = ?, is_completed = ? WHERE id = ?\<close>: the checks are
  evaluated on the rows the statement changes.\<close>

definition finalize_row ::
  "real \<Rightarrow> int \<Rightarrow> int \<Rightarrow> int \<Rightarrow> int \<Rightarrow> int \<Rightarrow> attempt_row \<Rightarrow> attempt_row" where
  "finalize_row score pointsEarned totalPoints submittedAt durationSeconds completed a =
     a\<lparr>att_score := Some score, att_points_earned := Some pointsEarned,
       att_total_points := Some totalPoints, att_submitted_at := Some submittedAt,
       att_duration_seconds := Some durationSeconds, att_is_completed := completed\<rparr>"

definition update_attempt ::
  "db \<Rightarrow> string \<Rightarrow> real \<Rightarrow> int \<Rightarrow> int \<Rightarrow> int \<Rightarrow> int \<Rightarrow> int \<Rightarrow> db option" where
  "update_attempt d attemptId score pointsEarned totalPoints submittedAt durationSeconds completed =
     (let upd = finalize_row score pointsEarned totalPoints submittedAt durationSeconds completed
      in if list_all (\<lambda>a. attempt_checks (upd a))
              (filter (\<lambda>a. att_id a = attemptId) (quiz_attempts d))
         then Some (d\<lparr>quiz_attempts :=
                       map (\<lambda>a. if att_id a = attemptId then upd a else a) (quiz_attempts d)\<rparr>)
         else None)"

text \<open>\<^verbatim>\<open>DELETE FROM quiz_attempts WHERE id = ?\<close>; the foreign key of
  \<^verbatim>\<open>attempt_answers.attempt_id\<close> is declared ON DELETE CASCADE.\<close>

definition delete_attempt :: "db \<Rightarrow> string \<Rightarrow> db" where
  "delete_attempt d attemptId =
     d\<lparr>quiz_attempts := filter (\<lambda>a. att_id a \<noteq> attemptId) (quiz_attempts d),
       attempt_answers := filter (\<lambda>r. ans_attempt_id r \<noteq> attemptId) (attempt_answers d)\<rparr>"

text \<open>The foreign key of \<^verbatim>\<open>attempt_answers.selected_option_id\<close> (nullable).\<close>

definition option_fk :: "db \<Rightarrow> string option \<Rightarrow> bool" where
  "option_fk d s =
     (case s of None \<Rightarrow> True | Some t \<Rightarrow> t \<in> set (map opt_id (answer_options d)))"

text \<open>\<^verbatim>\<open>INSERT INTO attempt_answers\<close>: primary key, UNIQUE (attempt_id, question_id),
  the three foreign keys, the check on \<^verbatim>\<open>is_correct\<close>.\<close>

definition insert_answer :: "db \<Rightarrow> answer_row \<Rightarrow> db option" where
  "insert_answer d r =
     (if ans_id r \<in> set (map ans_id (attempt_answers d)) then None
      else if (ans_attempt_id r, ans_question_id r)
                \<in> set (map (\<lambda>x. (ans_attempt_id x, ans_question_id x)) (attempt_answers d))
        then None
      else if ans_attempt_id r \<notin> set (map att_id (quiz_attempts d)) then None
      else if ans_question_id r \<notin> set (map q_id (questions d)) then None
      else if \<not> option_fk d (ans_selected_option_id r) then None
      else if \<not> (ans_is_correct r = 0 \<or> ans_is_correct r = 1) then None
      else Some (d\<lparr>attempt_answers := attempt_answers d @ [r]\<rparr>))"

text \<open>\<^verbatim>\<open>UPDATE attempt_answers SET selected_option_id = ?, is_correct = ?,
  points_earned = ?, answered_at = ? WHERE id = ?\<close>.\<close>

definition answer_set ::
  "string option \<Rightarrow> int \<Rightarrow> int \<Rightarrow> int \<Rightarrow> answer_row \<Rightarrow> answer_row" where
  "answer_set selectedOptionId isCorrect pointsEarned now r =
     r\<lparr>ans_selected_option_id := selectedOptionId, ans_is_correct := isCorrect,
       ans_points_earned := pointsEarned, ans_answered_at := now\<rparr>"

definition update_answer ::
  "db \<Rightarrow> string \<Rightarrow> string option \<Rightarrow> int \<Rightarrow> int \<Rightarrow> int \<Rightarrow> db option" where
  "update_answer d answerId selectedOptionId isCorrect pointsEarned now =
     (if answerId \<in> set (map ans_id (attempt_answers d)) \<and>
         \<not> (option_fk d selectedOptionId \<and> (isCorrect = 0 \<or> isCorrect = 1))
      then None
      else Some (d\<lparr>attempt_answers :=
             map (\<lambda>r. if ans_id r = answerId
                       then answer_set selectedOptionId isCorrect pointsEarned now r else r)
                 (attempt_answers d)\<rparr>))"

subsection \<open>startQuizAttempt\<close>

text \<open>The row of \<^verbatim>\<open>VALUES (attemptId, studentId, quizId, null, null, null, now, null, null,
  fromBool(false))\<close>.\<close>

definition new_attempt :: "string \<Rightarrow> string \<Rightarrow> string \<Rightarrow> int \<Rightarrow> attempt_row" where
  "new_attempt studentId quizId attemptId now =
     \<lparr>att_id = attemptId, att_student_id = studentId, att_quiz_id = quizId,
      att_score = None, att_points_earned = None, att_total_points = None,
      att_started_at = now, att_submitted_at = None,
      att_duration_seconds = None, att_is_completed = fromBool False\<rparr>"

definition startQuizAttempt ::
  "db \<Rightarrow> string \<Rightarrow> string \<Rightarrow> string \<Rightarrow> int \<Rightarrow> db \<times> (error + attempt_row)" where
  "startQuizAttempt d studentId quizId attemptId now =
     (case find (\<lambda>q. qz_id q = quizId) (quizzes d) of
        None \<Rightarrow> (d, Inl QuizNotFound)
      | Some quiz \<Rightarrow>
          if \<not> toBool (qz_is_published quiz) then (d, Inl QuizNotPublished)
          else
            (case find (\<lambda>a. att_student_id a = studentId \<and> att_quiz_id a = quizId
                             \<and> att_is_completed a = fromBool False) (quiz_attempts d) of
               Some incompleteAttempt \<Rightarrow> (d, Inl IncompleteAttemptExists)
             | None \<Rightarrow>
                 (case insert_attempt d (new_attempt studentId quizId attemptId now) of
                    None \<Rightarrow> (d, Inl StorageError)
                  | Some d' \<Rightarrow>
                      (case find (\<lambda>a. att_id a = attemptId) (quiz_attempts d') of
                         None \<Rightarrow> (d', Inl FailedToCreateAttempt)
                       | Some attempt \<Rightarrow> (d', Inr attempt)))))"

subsection \<open>getAttemptById\<close>

definition getAttemptById :: "db \<Rightarrow> string \<Rightarrow> attempt_row option" where
  "getAttemptById d attemptId = find (\<lambda>a. att_id a = attemptId) (quiz_attempts d)"

subsection \<open>submitAnswer\<close>

text \<open>The block \<^verbatim>\<open>if (selectedOptionId) { ... }\<close>: the pair (isCorrect, pointsEarned), or
  the error thrown inside the block.\<close>

definition grade_selection ::
  "db \<Rightarrow> string \<Rightarrow> question_row \<Rightarrow> string option \<Rightarrow> error + (bool \<times> int)" where
  "grade_selection d questionId question selectedOptionId =
     (if truthy selectedOptionId then
        (case find (\<lambda>opt. Some (opt_id opt) = selectedOptionId) (answer_options d) of
           None \<Rightarrow> Inl OptionInvalid
         | Some opt \<Rightarrow>
             if opt_question_id opt \<noteq> questionId then Inl OptionInvalid
             else (let isCorrect = toBool (opt_is_correct opt)
                   in Inr (isCorrect, if isCorrect then q_points question else 0)))
      else Inr (False, 0))"

text \<open>The row of \<^verbatim>\<open>VALUES (answerId, attemptId, questionId, selectedOptionId,
  fromBool(isCorrect), pointsEarned, now)\<close>.\<close>

definition new_answer ::
  "string \<Rightarrow> string \<Rightarrow> string \<Rightarrow> string option \<Rightarrow> int \<Rightarrow> int \<Rightarrow> int \<Rightarrow> answer_row" where
  "new_answer answerId attemptId questionId selectedOptionId isCorrect pointsEarned now =
     \<lparr>ans_id = answerId, ans_attempt_id = attemptId, ans_question_id = questionId,
      ans_selected_option_id = selectedOptionId, ans_is_correct = isCorrect,
      ans_points_earned = pointsEarned, ans_answered_at = now\<rparr>"

text \<open>The block \<^verbatim>\<open>if (existingAnswer) { UPDATE ... WHERE id = existingAnswer.id } else
  { INSERT ... }\<close> with the select of \<^verbatim>\<open>existingAnswer\<close> before it.\<close>

definition upsert_answer ::
  "db \<Rightarrow> string \<Rightarrow> string \<Rightarrow> string option \<Rightarrow> string \<Rightarrow> int \<Rightarrow> bool \<Rightarrow> int \<Rightarrow> db option" where
  "upsert_answer d attemptId questionId selectedOptionId answerId now isCorrect pointsEarned =
     (case find (\<lambda>r. ans_attempt_id r = attemptId \<and> ans_question_id r = questionId)
                (attempt_answers d) of
        Some existingAnswer \<Rightarrow>
          update_answer d (ans_id existingAnswer) selectedOptionId
            (fromBool isCorrect) pointsEarned now
      | None \<Rightarrow>
          insert_answer d
            (new_answer answerId attemptId questionId selectedOptionId
               (fromBool isCorrect) pointsEarned now))"

definition submitAnswer ::
  "db \<Rightarrow> string \<Rightarrow> string \<Rightarrow> string option \<Rightarrow> string \<Rightarrow> int \<Rightarrow> db \<times> (error + answer_row)" where
  "submitAnswer d attemptId questionId selectedOptionId answerId now =
     (case find (\<lambda>a. att_id a = attemptId) (quiz_attempts d) of
        None \<Rightarrow> (d, Inl AttemptNotFound)
      | Some attempt \<Rightarrow>
          if toBool (att_is_completed attempt) then (d, Inl CannotModifyCompleted)
          else
            (case find (\<lambda>q. q_id q = questionId) (questions d) of
               None \<Rightarrow> (d, Inl QuestionInvalid)
             | Some question \<Rightarrow>
                 if q_quiz_id question \<noteq> att_quiz_id attempt then (d, Inl QuestionInvalid)
                 else
                   (case grade_selection d questionId question selectedOptionId of
                      Inl e \<Rightarrow> (d, Inl e)
                    | Inr (isCorrect, pointsEarned) \<Rightarrow>
                        (case upsert_answer d attemptId questionId selectedOptionId answerId now
                                isCorrect pointsEarned of
                           None \<Rightarrow> (d, Inl StorageError)
                         | Some d' \<Rightarrow>
                             (case find (\<lambda>r. ans_attempt_id r = attemptId
                                              \<and> ans_question_id r = questionId)
                                        (attempt_answers d') of
                                None \<Rightarrow> (d', Inl FailedToSaveAnswer)
                              | Some answer \<Rightarrow> (d', Inr answer))))))"

subsection \<open>submitQuizAttempt\<close>

text \<open>The rows of \<^verbatim>\<open>questions q LEFT JOIN attempt_answers aa ON q.id = aa.question_id AND
  aa.attempt_id = ? WHERE q.quiz_id = ?\<close>: one row per matching answer, and one row with a
  NULL answer for a question that has none. \<open>matching\<close> is the ON clause: the answers
  joined to one question.\<close>

definition matching :: "db \<Rightarrow> string \<Rightarrow> question_row \<Rightarrow> answer_row list" where
  "matching d attemptId q =
     filter (\<lambda>r. q_id q = ans_question_id r \<and> ans_attempt_id r = attemptId) (attempt_answers d)"

definition score_rows :: "db \<Rightarrow> string \<Rightarrow> string \<Rightarrow> (question_row \<times> answer_row option) list" where
  "score_rows d attemptId quizId =
     concat (map (\<lambda>q. case matching d attemptId q of
                        [] \<Rightarrow> [(q, None)]
                      | rs \<Rightarrow> map (\<lambda>r. (q, Some r)) rs)
                 (filter (\<lambda>q. q_quiz_id q = quizId) (questions d)))"

text \<open>\<^verbatim>\<open>COALESCE(SUM(q.points), 0)\<close> and \<^verbatim>\<open>COALESCE(SUM(aa.points_earned), 0)\<close> over these
  rows; SUM skips NULL and is NULL on no rows, which COALESCE turns into 0.\<close>

definition scoreData :: "db \<Rightarrow> string \<Rightarrow> string \<Rightarrow> int \<times> int" where
  "scoreData d attemptId quizId =
     (let rows = score_rows d attemptId quizId
      in (sum_list (map (\<lambda>(q, r). q_points q) rows),
          sum_list (map (\<lambda>(q, r). case r of None \<Rightarrow> 0 | Some x \<Rightarrow> ans_points_earned x) rows)))"

text \<open>\<^verbatim>\<open>totalPoints > 0 ? (pointsEarned / totalPoints) * 100 : 0\<close>.\<close>

definition compute_score :: "int \<Rightarrow> int \<Rightarrow> real" where
  "compute_score pointsEarned totalPoints =
     (if totalPoints > 0 then (real_of_int pointsEarned / real_of_int totalPoints) * 100 else 0)"

text \<open>getCompleteAttempt: the attempt row it selects again. The quiz title and the list
  of answers joined with their question and option texts, which it adds to the returned
  object, are read-only and are left out.\<close>

definition getCompleteAttempt :: "db \<Rightarrow> string \<Rightarrow> string \<Rightarrow> error + attempt_row" where
  "getCompleteAttempt d attemptId studentId =
     (case find (\<lambda>a. att_id a = attemptId \<and> att_student_id a = studentId) (quiz_attempts d) of
        None \<Rightarrow> Inl AttemptNotFoundOrAccessDenied
      | Some attempt \<Rightarrow> Inr attempt)"

text \<open>\<^verbatim>\<open>scoreData?.total_points || 0\<close> is the number itself (the query always returns one
  row of two numbers, and \<open>0 || 0\<close> is \<open>0\<close>). \<^verbatim>\<open>Math.floor((submittedAt - started_at) / 1000)\<close>
  is \<open>div\<close> on \<^typ>\<open>int\<close>, which rounds towards minus infinity.\<close>

definition submitQuizAttempt ::
  "db \<Rightarrow> string \<Rightarrow> string \<Rightarrow> int \<Rightarrow> db \<times> (error + attempt_row)" where
  "submitQuizAttempt d attemptId studentId submittedAt =
     (case find (\<lambda>a. att_id a = attemptId \<and> att_student_id a = studentId) (quiz_attempts d) of
        None \<Rightarrow> (d, Inl AttemptNotFoundOrAccessDenied)
      | Some attempt \<Rightarrow>
          if toBool (att_is_completed attempt) then (d, Inl AttemptAlreadyCompleted)
          else
            (let (totalPoints, pointsEarned) = scoreData d attemptId (att_quiz_id attempt);
                 score = compute_score pointsEarned totalPoints;
                 durationSeconds = (submittedAt - att_started_at attempt) div 1000
             in case update_attempt d attemptId score pointsEarned totalPoints submittedAt
                       durationSeconds (fromBool True) of
                  None \<Rightarrow> (d, Inl StorageError)
                | Some d' \<Rightarrow> (d', getCompleteAttempt d' attemptId studentId)))"

subsection \<open>abandonAttempt\<close>

definition abandonAttempt :: "db \<Rightarrow> string \<Rightarrow> string \<Rightarrow> db \<times> (error + unit)" where
  "abandonAttempt d attemptId studentId =
     (case find (\<lambda>a. att_id a = attemptId \<and> att_student_id a = studentId) (quiz_attempts d) of
        None \<Rightarrow> (d, Inl AttemptNotFoundOrAccessDenied)
      | Some attempt \<Rightarrow>
          if toBool (att_is_completed attempt) then (d, Inl CannotAbandonCompleted)
          else (delete_attempt d attemptId, Inr ()))"

subsection \<open>updateQuestion (quiz service), restricted to the points column\<close>

text \<open>\<^verbatim>\<open>UPDATE questions SET points = ?, updated_at = ? WHERE id = ?\<close> when
  \<^verbatim>\<open>updates.points\<close> is given, under CHECK (points > 0); without it only the timestamp
  changes, which is not a column of the model.\<close>

definition update_question :: "db \<Rightarrow> string \<Rightarrow> int option \<Rightarrow> db option" where
  "update_question d questionId points =
     (case points of
        None \<Rightarrow> Some d
      | Some p \<Rightarrow>
          if questionId \<in> set (map q_id (questions d)) \<and> \<not> 0 < p then None
          else Some (d\<lparr>questions :=
                 map (\<lambda>q. if q_id q = questionId then q\<lparr>q_points := p\<rparr> else q) (questions d)\<rparr>))"

definition updateQuestion ::
  "db \<Rightarrow> string \<Rightarrow> int option \<Rightarrow> db \<times> (error + question_row)" where
  "updateQuestion d questionId points =
     (case update_question d questionId points of
        None \<Rightarrow> (d, Inl StorageError)
      | Some d' \<Rightarrow>
          (case find (\<lambda>q. q_id q = questionId) (questions d') of
             None \<Rightarrow> (d', Inl QuestionNotFound)
           | Some question \<Rightarrow> (d', Inr question)))"

subsection \<open>Sequences of ledger calls\<close>

text \<open>One call of the attempt service with all its arguments, the generated identifier
  and the clock reading included; a run executes calls one after the other on the
  database each leaves behind, whether the call returned or threw.\<close>

datatype ledger_op =
    StartAttempt string string string int
  | RecordAnswer string string "string option" string int
  | SubmitAttempt string string int
  | AbandonAttempt string string

fun ledger_step :: "db \<Rightarrow> ledger_op \<Rightarrow> db" where
  "ledger_step d (StartAttempt studentId quizId attemptId now) =
     fst (startQuizAttempt d studentId quizId attemptId now)"
| "ledger_step d (RecordAnswer attemptId questionId selectedOptionId answerId now) =
     fst (submitAnswer d attemptId questionId selectedOptionId answerId now)"
| "ledger_step d (SubmitAttempt attemptId studentId now) =
     fst (submitQuizAttempt d attemptId studentId now)"
| "ledger_step d (AbandonAttempt attemptId studentId) =
     fst (abandonAttempt d attemptId studentId)"

definition ledger_run :: "db \<Rightarrow> ledger_op list \<Rightarrow> db" where
  "ledger_run d ops = foldl ledger_step d ops"

subsection \<open>States of the ledger\<close>

text \<open>The constraints that migration 0001 puts on the catalog tables the ledger reads:
  the primary key of \<^verbatim>\<open>questions\<close> and CHECK (points > 0).\<close>

definition catalog_ok :: "db \<Rightarrow> bool" where
  "catalog_ok d =
     (distinct (map q_id (questions d)) \<and> (\<forall>q \<in> set (questions d). 0 < q_points q))"

text \<open>A ledger before any attempt was started, over any such catalog. The catalog is
  not written by the attempt service, so a run of ledger calls leaves it as it is.\<close>

definition fresh_ledger :: "db \<Rightarrow> bool" where
  "fresh_ledger d = (catalog_ok d \<and> quiz_attempts d = [] \<and> attempt_answers d = [])"

text \<open>The primary keys of the two ledger tables and UNIQUE (attempt_id, question_id).\<close>

definition keys_ok :: "db \<Rightarrow> bool" where
  "keys_ok d =
     (distinct (map att_id (quiz_attempts d)) \<and>
      distinct (map ans_id (attempt_answers d)) \<and>
      distinct (map (\<lambda>r. (ans_attempt_id r, ans_question_id r)) (attempt_answers d)))"

text \<open>Every answer belongs to an attempt and to a question of that attempt's quiz, and
  carries either no points or the points of its question.\<close>

definition answers_ok :: "db \<Rightarrow> bool" where
  "answers_ok d =
     (\<forall>r \<in> set (attempt_answers d).
        \<exists>a \<in> set (quiz_attempts d). att_id a = ans_attempt_id r \<and>
          (\<exists>q \<in> set (questions d). q_id q = ans_question_id r \<and> q_quiz_id q = att_quiz_id a \<and>
             (ans_points_earned r = 0 \<or> ans_points_earned r = q_points q)))"

text \<open>The scoring fields of a finalized attempt: the points earned lie between 0 and the
  total, and the score is the scoring formula applied to the two stored sums.\<close>

definition finalized :: "attempt_row \<Rightarrow> bool" where
  "finalized a =
     (case (att_score a, att_points_earned a, att_total_points a) of
        (Some s, Some pe, Some tp) \<Rightarrow> 0 \<le> pe \<and> pe \<le> tp \<and> s = compute_score pe tp
      | _ \<Rightarrow> False)"

text \<open>Every attempt is on a published quiz, its completion flag is 0 or 1, and a
  completed one is finalized.\<close>

definition attempts_ok :: "db \<Rightarrow> bool" where
  "attempts_ok d =
     (\<forall>a \<in> set (quiz_attempts d).
        (att_is_completed a = 0 \<or> att_is_completed a = 1) \<and>
        (\<exists>quiz. find (\<lambda>q. qz_id q = att_quiz_id a) (quizzes d) = Some quiz
                 \<and> toBool (qz_is_published quiz)) \<and>
        (toBool (att_is_completed a) \<longrightarrow> finalized a))"

text \<open>The in-progress attempts of one student on one quiz.\<close>

definition in_progress :: "db \<Rightarrow> string \<Rightarrow> string \<Rightarrow> attempt_row list" where
  "in_progress d studentId quizId =
     filter (\<lambda>a. att_student_id a = studentId \<and> att_quiz_id a = quizId
                  \<and> \<not> toBool (att_is_completed a)) (quiz_attempts d)"

definition single_in_progress :: "db \<Rightarrow> bool" where
  "single_in_progress d = (\<forall>studentId quizId. length (in_progress d studentId quizId) \<le> 1)"

definition ledger_inv :: "db \<Rightarrow> bool" where
  "ledger_inv d =
     (catalog_ok d \<and> keys_ok d \<and> answers_ok d \<and> attempts_ok d \<and> single_in_progress d)"

subsection \<open>States of the whole database\<close>

text \<open>What holds of the answers whatever the catalog service has done since they were
  recorded: every answer belongs to an attempt and to a question of that attempt's quiz
  (the foreign keys of \<^verbatim>\<open>attempt_answers\<close> and the quiz test of submitAnswer; no
  statement of the repository changes a \<^verbatim>\<open>quiz_id\<close>), and its stored points are not
  negative (they are 0 or a weight that was positive when the answer was recorded).\<close>

definition answers_in_quiz :: "db \<Rightarrow> bool" where
  "answers_in_quiz d =
     (\<forall>r \<in> set (attempt_answers d).
        0 \<le> ans_points_earned r \<and>
        (\<exists>a \<in> set (quiz_attempts d). att_id a = ans_attempt_id r \<and>
          (\<exists>q \<in> set (questions d). q_id q = ans_question_id r \<and> q_quiz_id q = att_quiz_id a)))"

definition schema_ok :: "db \<Rightarrow> bool" where
  "schema_ok d = (catalog_ok d \<and> keys_ok d \<and> answers_in_quiz d)"

text \<open>Ledger calls interleaved with calls of updateQuestion that change weights.\<close>

datatype system_op =
    Ledger ledger_op
  | UpdateQuestion string "int option"

fun system_step :: "db \<Rightarrow> system_op \<Rightarrow> db" where
  "system_step d (Ledger op) = ledger_step d op"
| "system_step d (UpdateQuestion questionId points) = fst (updateQuestion d questionId points)"

definition system_run :: "db \<Rightarrow> system_op list \<Rightarrow> db" where
  "system_run d ops = foldl system_step d ops"

subsection \<open>Sums the claims speak of\<close>

text \<open>The point weights of every question of a quiz, and the stored points of every
  recorded answer of an attempt.\<close>

definition quiz_weight :: "db \<Rightarrow> string \<Rightarrow> int" where
  "quiz_weight d quizId =
     sum_list (map q_points (filter (\<lambda>q. q_quiz_id q = quizId) (questions d)))"

definition recorded_points :: "db \<Rightarrow> string \<Rightarrow> int" where
  "recorded_points d attemptId =
     sum_list (map ans_points_earned
                 (filter (\<lambda>r. ans_attempt_id r = attemptId) (attempt_answers d)))"

subsection \<open>Example states\<close>

text \<open>The scenario of the spec: quiz \<open>z1\<close>, published, with question \<open>q1\<close> (10 points,
  correct option \<open>o1a\<close>) and question \<open>q2\<close> (20 points, correct option \<open>o2b\<close>); and a
  published quiz \<open>z0\<close> without questions. Nobody has started an attempt.\<close>

definition db0 :: db where
  "db0 = \<lparr>users = [''alice'', ''bob''],
     quizzes = [\<lparr>qz_id = ''z1'', qz_is_published = 1\<rparr>,
                \<lparr>qz_id = ''z0'', qz_is_published = 1\<rparr>],
     questions = [\<lparr>q_id = ''q1'', q_quiz_id = ''z1'', q_points = 10\<rparr>,
                  \<lparr>q_id = ''q2'', q_quiz_id = ''z1'', q_points = 20\<rparr>],
     answer_options = [\<lparr>opt_id = ''o1a'', opt_question_id = ''q1'', opt_is_correct = 1\<rparr>,
                       \<lparr>opt_id = ''o2b'', opt_question_id = ''q2'', opt_is_correct = 1\<rparr>,
                       \<lparr>opt_id = ''o2c'', opt_question_id = ''q2'', opt_is_correct = 0\<rparr>],
     quiz_attempts = [], attempt_answers = []\<rparr>"

text \<open>Alice's attempt \<open>a1\<close> on \<open>z1\<close>, as startQuizAttempt creates it at time 1000.\<close>

definition att1 :: attempt_row where
  "att1 = \<lparr>att_id = ''a1'', att_student_id = ''alice'', att_quiz_id = ''z1'',
            att_score = None, att_points_earned = None, att_total_points = None,
            att_started_at = 1000, att_submitted_at = None, att_duration_seconds = None,
            att_is_completed = 0\<rparr>"

definition db1 :: db where
  "db1 = db0\<lparr>quiz_attempts := [att1]\<rparr>"

text \<open>Alice has answered \<open>q1\<close> with \<open>o1a\<close> (correct) and \<open>q2\<close> with \<open>o2c\<close> (wrong).\<close>

definition ans1 :: answer_row where
  "ans1 = \<lparr>ans_id = ''n1'', ans_attempt_id = ''a1'', ans_question_id = ''q1'',
            ans_selected_option_id = Some ''o1a'', ans_is_correct = 1,
            ans_points_earned = 10, ans_answered_at = 2000\<rparr>"

definition ans2 :: answer_row where
  "ans2 = \<lparr>ans_id = ''n2'', ans_attempt_id = ''a1'', ans_question_id = ''q2'',
            ans_selected_option_id = Some ''o2c'', ans_is_correct = 0,
            ans_points_earned = 0, ans_answered_at = 3000\<rparr>"

definition db2 :: db where
  "db2 = db1\<lparr>attempt_answers := [ans1, ans2]\<rparr>"

text \<open>Alice has submitted at time 5500.\<close>

definition att1_done :: attempt_row where
  "att1_done = att1\<lparr>att_score := Some (100 / 3), att_points_earned := Some 10,
                       att_total_points := Some 30, att_submitted_at := Some 5500,
                       att_duration_seconds := Some 4, att_is_completed := 1\<rparr>"

definition db3 :: db where
  "db3 = db2\<lparr>quiz_attempts := [att1_done]\<rparr>"

text \<open>Bob has started an attempt on the quiz without questions at time 100 and submitted
  it at time 200.\<close>

definition att0_done :: attempt_row where
  "att0_done = \<lparr>att_id = ''b1'', att_student_id = ''bob'', att_quiz_id = ''z0'',
            att_score = Some 0, att_points_earned = Some 0, att_total_points = Some 0,
            att_started_at = 100, att_submitted_at = Some 200, att_duration_seconds = Some 0,
            att_is_completed = 1\<rparr>"

definition db4 :: db where
  "db4 = db0\<lparr>quiz_attempts := [att0_done]\<rparr>"

text \<open>The calls that lead from \<open>db0\<close> to these states.\<close>

definition ops1 :: "ledger_op list" where
  "ops1 = [StartAttempt ''alice'' ''z1'' ''a1'' 1000]"

definition ops2 :: "ledger_op list" where
  "ops2 = ops1 @ [RecordAnswer ''a1'' ''q1'' (Some ''o1a'') ''n1'' 2000,
                  RecordAnswer ''a1'' ''q2'' (Some ''o2c'') ''n2'' 3000]"

definition ops3 :: "ledger_op list" where
  "ops3 = ops2 @ [SubmitAttempt ''a1'' ''alice'' 5500]"

definition ops4 :: "ledger_op list" where
  "ops4 = [StartAttempt ''bob'' ''z0'' ''b1'' 100, SubmitAttempt ''b1'' ''bob'' 200]"

text \<open>Alice has answered both questions of \<open>z1\<close> correctly (30 points stored); then
  updateQuestion has raised \<open>q2\<close> to 50 points, or has cut it to 1 point.\<close>

definition ans2_right :: answer_row where
  "ans2_right = \<lparr>ans_id = ''n2'', ans_attempt_id = ''a1'', ans_question_id = ''q2'',
            ans_selected_option_id = Some ''o2b'', ans_is_correct = 1,
            ans_points_earned = 20, ans_answered_at = 3000\<rparr>"

definition db5 :: db where
  "db5 = db1\<lparr>attempt_answers := [ans1, ans2_right]\<rparr>"

definition ops5 :: "system_op list" where
  "ops5 = [Ledger (StartAttempt ''alice'' ''z1'' ''a1'' 1000),
           Ledger (RecordAnswer ''a1'' ''q1'' (Some ''o1a'') ''n1'' 2000),
           Ledger (RecordAnswer ''a1'' ''q2'' (Some ''o2b'') ''n2'' 3000)]"

definition db5_raised :: db where
  "db5_raised = db5\<lparr>questions := [\<lparr>q_id = ''q1'', q_quiz_id = ''z1'', q_points = 10\<rparr>,
                                   \<lparr>q_id = ''q2'', q_quiz_id = ''z1'', q_points = 50\<rparr>]\<rparr>"

definition db5_cut :: db where
  "db5_cut = db5\<lparr>questions := [\<lparr>q_id = ''q1'', q_quiz_id = ''z1'', q_points = 10\<rparr>,
                                \<lparr>q_id = ''q2'', q_quiz_id = ''z1'', q_points = 1\<rparr>]\<rparr>"

section \<open>Basic facts\<close>

subsection \<open>Lists and rows\<close>

lemma find_append_new:
  "find P (xs @ [x]) = (case find P xs of Some y \<Rightarrow> Some y | None \<Rightarrow> if P x then Some x else None)"
  by (induction xs) auto

lemma find_map_same:
  "(\<And>x. P (f x) = P x) \<Longrightarrow> find P (map f xs) = map_option f (find P xs)"
  by (induction xs) auto

lemma new_attempt_sel [simp]:
  "att_id (new_attempt s q n t) = n"
  "att_student_id (new_attempt s q n t) = s"
  "att_quiz_id (new_attempt s q n t) = q"
  "att_is_completed (new_attempt s q n t) = 0"
  "att_score (new_attempt s q n t) = None"
  "att_started_at (new_attempt s q n t) = t"
  by (simp_all add: new_attempt_def fromBool_def)

lemma new_attempt_checks [simp]: "attempt_checks (new_attempt s q n t)"
  by (simp add: attempt_checks_def)

lemma new_answer_sel [simp]:
  "ans_id (new_answer n a q s c p t) = n"
  "ans_attempt_id (new_answer n a q s c p t) = a"
  "ans_question_id (new_answer n a q s c p t) = q"
  "ans_selected_option_id (new_answer n a q s c p t) = s"
  "ans_is_correct (new_answer n a q s c p t) = c"
  "ans_points_earned (new_answer n a q s c p t) = p"
  "ans_answered_at (new_answer n a q s c p t) = t"
  by (simp_all add: new_answer_def)

lemma answer_set_sel [simp]:
  "ans_id (answer_set s c p t r) = ans_id r"
  "ans_attempt_id (answer_set s c p t r) = ans_attempt_id r"
  "ans_question_id (answer_set s c p t r) = ans_question_id r"
  "ans_selected_option_id (answer_set s c p t r) = s"
  "ans_is_correct (answer_set s c p t r) = c"
  "ans_points_earned (answer_set s c p t r) = p"
  "ans_answered_at (answer_set s c p t r) = t"
  by (simp_all add: answer_set_def)

lemma finalize_row_sel [simp]:
  "att_id (finalize_row s p tp sub dur c a) = att_id a"
  "att_student_id (finalize_row s p tp sub dur c a) = att_student_id a"
  "att_quiz_id (finalize_row s p tp sub dur c a) = att_quiz_id a"
  "att_started_at (finalize_row s p tp sub dur c a) = att_started_at a"
  "att_score (finalize_row s p tp sub dur c a) = Some s"
  "att_points_earned (finalize_row s p tp sub dur c a) = Some p"
  "att_total_points (finalize_row s p tp sub dur c a) = Some tp"
  "att_submitted_at (finalize_row s p tp sub dur c a) = Some sub"
  "att_duration_seconds (finalize_row s p tp sub dur c a) = Some dur"
  "att_is_completed (finalize_row s p tp sub dur c a) = c"
  by (simp_all add: finalize_row_def)

lemma fromBool_01 [simp]: "fromBool b = 0 \<or> fromBool b = 1"
  by (simp add: fromBool_def)

lemma toBool_fromBool [simp]: "toBool (fromBool b) = b"
  by (simp add: toBool_def fromBool_def)

subsection \<open>startQuizAttempt\<close>

lemma start_effect:
  "fst (startQuizAttempt d s q n t) = d \<or>
   (fst (startQuizAttempt d s q n t) = d\<lparr>quiz_attempts := quiz_attempts d @ [new_attempt s q n t]\<rparr>
    \<and> n \<notin> set (map att_id (quiz_attempts d))
    \<and> (\<exists>quiz. find (\<lambda>x. qz_id x = q) (quizzes d) = Some quiz \<and> toBool (qz_is_published quiz))
    \<and> find (\<lambda>a. att_student_id a = s \<and> att_quiz_id a = q \<and> att_is_completed a = fromBool False)
         (quiz_attempts d) = None)"
  by (auto simp: startQuizAttempt_def insert_attempt_def split: option.splits if_splits)

lemma start_failure_unchanged:
  "startQuizAttempt d s q n t = (d', Inl e) \<Longrightarrow> d' = d"
  by (auto simp: startQuizAttempt_def insert_attempt_def find_append_new
      split: option.splits if_splits)

lemma start_success:
  assumes "find (\<lambda>x. qz_id x = q) (quizzes d) = Some quiz" "toBool (qz_is_published quiz)"
    and "find (\<lambda>a. att_student_id a = s \<and> att_quiz_id a = q \<and> att_is_completed a = fromBool False)
         (quiz_attempts d) = None"
    and "n \<notin> set (map att_id (quiz_attempts d))" "s \<in> set (users d)"
  shows "startQuizAttempt d s q n t =
     (d\<lparr>quiz_attempts := quiz_attempts d @ [new_attempt s q n t]\<rparr>, Inr (new_attempt s q n t))"
proof -
  from assms(1) have "q \<in> set (map qz_id (quizzes d))"
    by (auto simp: find_Some_iff)
  moreover from assms(4) have "find (\<lambda>a. att_id a = n) (quiz_attempts d) = None"
    by (auto simp: find_None_iff)
  ultimately show ?thesis using assms
    by (simp add: startQuizAttempt_def insert_attempt_def find_append_new)
qed

subsection \<open>submitAnswer\<close>

lemma grade_selection_Inr:
  assumes "grade_selection d qid q sel = Inr (ic, pe)"
  shows "pe = (if ic then q_points q else 0)" and "truthy sel \<Longrightarrow> option_fk d sel"
  using assms
  by (auto simp: grade_selection_def option_fk_def truthy_def Let_def find_Some_iff
      split: if_splits option.splits)

lemma insert_answer_Some:
  assumes "insert_answer d r = Some d'"
  shows "d' = d\<lparr>attempt_answers := attempt_answers d @ [r]\<rparr>"
    and "ans_id r \<notin> set (map ans_id (attempt_answers d))"
    and "(ans_attempt_id r, ans_question_id r)
           \<notin> set (map (\<lambda>x. (ans_attempt_id x, ans_question_id x)) (attempt_answers d))"
  using assms by (simp_all add: insert_answer_def split: if_splits)

lemma update_answer_Some:
  assumes "update_answer d i s c p t = Some d'"
  shows "d' = d\<lparr>attempt_answers :=
             map (\<lambda>r. if ans_id r = i then answer_set s c p t r else r) (attempt_answers d)\<rparr>"
  using assms by (simp add: update_answer_def split: if_splits)

text \<open>submitAnswer once its guards are passed: the write and the final select.\<close>

lemma submitAnswer_guarded:
  assumes "find (\<lambda>a. att_id a = aid) (quiz_attempts d) = Some att"
    and "\<not> toBool (att_is_completed att)"
    and "find (\<lambda>x. q_id x = qid) (questions d) = Some q"
    and "q_quiz_id q = att_quiz_id att"
    and "grade_selection d qid q sel = Inr (ic, pe)"
  shows "submitAnswer d aid qid sel nid t =
     (case upsert_answer d aid qid sel nid t ic pe of
        None \<Rightarrow> (d, Inl StorageError)
      | Some d' \<Rightarrow>
          (case find (\<lambda>r. ans_attempt_id r = aid \<and> ans_question_id r = qid) (attempt_answers d') of
             None \<Rightarrow> (d', Inl FailedToSaveAnswer)
           | Some answer \<Rightarrow> (d', Inr answer)))"
  using assms by (simp add: submitAnswer_def)

lemma submitAnswer_unguarded:
  assumes "\<not> (\<exists>att q ic pe. find (\<lambda>a. att_id a = aid) (quiz_attempts d) = Some att
      \<and> \<not> toBool (att_is_completed att)
      \<and> find (\<lambda>x. q_id x = qid) (questions d) = Some q
      \<and> q_quiz_id q = att_quiz_id att
      \<and> grade_selection d qid q sel = Inr (ic, pe))"
  shows "\<exists>e. submitAnswer d aid qid sel nid t = (d, Inl e)"
proof (cases "find (\<lambda>a. att_id a = aid) (quiz_attempts d)")
  case None
  then show ?thesis by (simp add: submitAnswer_def)
next
  case (Some att)
  note att = this
  show ?thesis
  proof (cases "find (\<lambda>x. q_id x = qid) (questions d)")
    case None
    with att show ?thesis by (simp add: submitAnswer_def)
  next
    case (Some q)
    note q = this
    show ?thesis
    proof (cases "grade_selection d qid q sel")
      case (Inl e)
      with att q show ?thesis by (simp add: submitAnswer_def)
    next
      case (Inr p)
      obtain ic pe where p: "p = (ic, pe)" by (cases p)
      from assms att q Inr p
      have "toBool (att_is_completed att) \<or> q_quiz_id q \<noteq> att_quiz_id att" by blast
      with att q show ?thesis by (auto simp add: submitAnswer_def)
    qed
  qed
qed

lemma upsert_answer_Some:
  assumes "upsert_answer d aid qid sel nid t ic pe = Some d'"
  shows "(\<exists>e. find (\<lambda>r. ans_attempt_id r = aid \<and> ans_question_id r = qid) (attempt_answers d) = Some e \<and>
            d' = d\<lparr>attempt_answers :=
                  map (\<lambda>r. if ans_id r = ans_id e then answer_set sel (fromBool ic) pe t r else r)
                    (attempt_answers d)\<rparr>) \<or>
         (find (\<lambda>r. ans_attempt_id r = aid \<and> ans_question_id r = qid) (attempt_answers d) = None \<and>
          nid \<notin> set (map ans_id (attempt_answers d)) \<and>
          d' = d\<lparr>attempt_answers := attempt_answers d @
                  [new_answer nid aid qid sel (fromBool ic) pe t]\<rparr>)"
proof (cases "find (\<lambda>r. ans_attempt_id r = aid \<and> ans_question_id r = qid) (attempt_answers d)")
  case None
  with assms have "insert_answer d (new_answer nid aid qid sel (fromBool ic) pe t) = Some d'"
    by (simp add: upsert_answer_def)
  from insert_answer_Some(1,2) [OF this] None show ?thesis by simp
next
  case (Some e)
  with assms have "update_answer d (ans_id e) sel (fromBool ic) pe t = Some d'"
    by (simp add: upsert_answer_def)
  from update_answer_Some [OF this] Some show ?thesis by simp
qed

lemma upsert_answer_find:
  assumes "upsert_answer d aid qid sel nid t ic pe = Some d'"
  shows "find (\<lambda>r. ans_attempt_id r = aid \<and> ans_question_id r = qid) (attempt_answers d') \<noteq> None"
  using upsert_answer_Some [OF assms]
  by (auto simp: find_append_new find_map_same)

lemma answer_outcome:
  "(\<exists>e. submitAnswer d aid qid sel nid t = (d, Inl e)) \<or>
   (\<exists>att q ic d' r.
      find (\<lambda>a. att_id a = aid) (quiz_attempts d) = Some att \<and> \<not> toBool (att_is_completed att) \<and>
      find (\<lambda>x. q_id x = qid) (questions d) = Some q \<and> q_quiz_id q = att_quiz_id att \<and>
      grade_selection d qid q sel = Inr (ic, if ic then q_points q else 0) \<and>
      upsert_answer d aid qid sel nid t ic (if ic then q_points q else 0) = Some d' \<and>
      find (\<lambda>r. ans_attempt_id r = aid \<and> ans_question_id r = qid) (attempt_answers d') = Some r \<and>
      submitAnswer d aid qid sel nid t = (d', Inr r))"
proof (cases "\<exists>att q ic pe. find (\<lambda>a. att_id a = aid) (quiz_attempts d) = Some att
      \<and> \<not> toBool (att_is_completed att)
      \<and> find (\<lambda>x. q_id x = qid) (questions d) = Some q
      \<and> q_quiz_id q = att_quiz_id att
      \<and> grade_selection d qid q sel = Inr (ic, pe)")
  case False
  from submitAnswer_unguarded [OF this] show ?thesis by blast
next
  case True
  then obtain att q ic pe where g: "find (\<lambda>a. att_id a = aid) (quiz_attempts d) = Some att"
      "\<not> toBool (att_is_completed att)" "find (\<lambda>x. q_id x = qid) (questions d) = Some q"
      "q_quiz_id q = att_quiz_id att" "grade_selection d qid q sel = Inr (ic, pe)" by blast
  from grade_selection_Inr(1) [OF g(5)] have pe: "pe = (if ic then q_points q else 0)" .
  note eq = submitAnswer_guarded [OF g, of nid t]
  show ?thesis
  proof (cases "upsert_answer d aid qid sel nid t ic pe")
    case None
    with eq show ?thesis by simp
  next
    case (Some d')
    from upsert_answer_find [OF Some] obtain r where
      r: "find (\<lambda>r. ans_attempt_id r = aid \<and> ans_question_id r = qid) (attempt_answers d') = Some r"
      by blast
    with eq Some have "submitAnswer d aid qid sel nid t = (d', Inr r)" by simp
    with g r Some pe show ?thesis by blast
  qed
qed

lemma answer_failure_unchanged:
  assumes "submitAnswer d aid qid sel nid t = (d', Inl e)"
  shows "d' = d"
  using answer_outcome [of d aid qid sel nid t] assms by auto

subsection \<open>submitQuizAttempt and abandonAttempt\<close>

lemma update_attempt_Some:
  assumes "update_attempt d aid s p tp sub dur c = Some d'"
  shows "d' = d\<lparr>quiz_attempts :=
            map (\<lambda>a. if att_id a = aid then finalize_row s p tp sub dur c a else a) (quiz_attempts d)\<rparr>"
    and "\<forall>a \<in> set (quiz_attempts d). att_id a = aid \<longrightarrow> attempt_checks (finalize_row s p tp sub dur c a)"
  using assms by (simp_all add: update_attempt_def Let_def list_all_iff split: if_splits)

lemma submit_outcome:
  "(\<exists>e. submitQuizAttempt d aid sid t = (d, Inl e)) \<or>
   (\<exists>att tp pe d'.
      find (\<lambda>a. att_id a = aid \<and> att_student_id a = sid) (quiz_attempts d) = Some att \<and>
      \<not> toBool (att_is_completed att) \<and>
      scoreData d aid (att_quiz_id att) = (tp, pe) \<and>
      update_attempt d aid (compute_score pe tp) pe tp t ((t - att_started_at att) div 1000) 1 = Some d' \<and>
      submitQuizAttempt d aid sid t =
        (d', Inr (finalize_row (compute_score pe tp) pe tp t ((t - att_started_at att) div 1000) 1 att)))"
proof (cases "find (\<lambda>a. att_id a = aid \<and> att_student_id a = sid) (quiz_attempts d)")
  case None
  then show ?thesis by (simp add: submitQuizAttempt_def)
next
  case (Some att)
  note att = this
  then have ida: "att_id att = aid" by (auto simp: find_Some_iff)
  show ?thesis
  proof (cases "toBool (att_is_completed att)")
    case True
    with att show ?thesis by (simp add: submitQuizAttempt_def)
  next
    case False
    obtain tp pe where sd: "scoreData d aid (att_quiz_id att) = (tp, pe)"
      by (cases "scoreData d aid (att_quiz_id att)")
    show ?thesis
    proof (cases "update_attempt d aid (compute_score pe tp) pe tp t ((t - att_started_at att) div 1000) 1")
      case None
      with att False sd show ?thesis by (simp add: submitQuizAttempt_def fromBool_def)
    next
      case (Some d')
      from update_attempt_Some(1) [OF Some] att ida
      have "getCompleteAttempt d' aid sid =
        Inr (finalize_row (compute_score pe tp) pe tp t ((t - att_started_at att) div 1000) 1 att)"
        by (simp add: getCompleteAttempt_def find_map_same)
      with att False sd Some have "submitQuizAttempt d aid sid t =
        (d', Inr (finalize_row (compute_score pe tp) pe tp t ((t - att_started_at att) div 1000) 1 att))"
        by (simp add: submitQuizAttempt_def fromBool_def)
      with att False sd Some show ?thesis by blast
    qed
  qed
qed

lemma submit_failure_unchanged:
  assumes "submitQuizAttempt d aid sid t = (d', Inl e)"
  shows "d' = d"
  using submit_outcome [of d aid sid t] assms by auto

lemma abandon_outcome:
  "(\<exists>e. abandonAttempt d aid sid = (d, Inl e)) \<or>
   (\<exists>att. find (\<lambda>a. att_id a = aid \<and> att_student_id a = sid) (quiz_attempts d) = Some att \<and>
      \<not> toBool (att_is_completed att) \<and>
      abandonAttempt d aid sid = (delete_attempt d aid, Inr ()))"
  by (auto simp: abandonAttempt_def split: option.splits)

section \<open>The scoring query\<close>

lemma sum_list_concat_map:
  "sum_list (map h (concat (map g xs))) = sum_list (map (\<lambda>x. sum_list (map h (g x))) xs)"
  by (induction xs) auto

lemma distinct_key_filter_le1:
  "distinct (map k xs) \<Longrightarrow> length (filter (\<lambda>x. k x = v) xs) \<le> 1"
proof (induction xs)
  case Nil
  then show ?case by simp
next
  case (Cons x xs)
  show ?case
  proof (cases "k x = v")
    case True
    with Cons.prems have "v \<notin> k ` set xs" by simp
    then have "\<forall>y \<in> set xs. k y \<noteq> v" by blast
    then have "filter (\<lambda>x. k x = v) xs = []" by (simp add: filter_empty_conv)
    with True show ?thesis by simp
  next
    case False
    with Cons show ?thesis by simp
  qed
qed

lemma sum_list_key_absent:
  "v \<notin> k ` set xs \<Longrightarrow> sum_list (map (\<lambda>x. if k x = v then c else 0) xs) = (0::int)"
  by (induction xs) auto

lemma sum_list_single_key:
  "distinct (map k xs) \<Longrightarrow> \<exists>x \<in> set xs. k x = v \<Longrightarrow>
   sum_list (map (\<lambda>x. if k x = v then c else 0) xs) = (c::int)"
proof (induction xs)
  case Nil
  then show ?case by simp
next
  case (Cons x xs)
  show ?case
  proof (cases "k x = v")
    case True
    with Cons.prems have "v \<notin> k ` set xs" by simp
    then have "sum_list (map (\<lambda>x. if k x = v then c else 0) xs) = 0"
      by (rule sum_list_key_absent)
    with True show ?thesis by simp
  next
    case False
    with Cons show ?thesis by auto
  qed
qed

lemma scoreData_sums:
  "scoreData d aid qz =
     (sum_list (map (\<lambda>q. if matching d aid q = [] then q_points q
                          else int (length (matching d aid q)) * q_points q)
                  (filter (\<lambda>q. q_quiz_id q = qz) (questions d))),
      sum_list (map (\<lambda>q. sum_list (map ans_points_earned (matching d aid q)))
                  (filter (\<lambda>q. q_quiz_id q = qz) (questions d))))"
proof -
  have a: "sum_list (map (\<lambda>(q, r). q_points q)
             (case matching d aid q of [] \<Rightarrow> [(q, None)] | rs \<Rightarrow> map (\<lambda>r. (q, Some r)) rs))
        = (if matching d aid q = [] then q_points q
           else int (length (matching d aid q)) * q_points q)" for q
    by (cases "matching d aid q") (simp_all add: comp_def sum_list_triv algebra_simps)
  have b: "sum_list (map (\<lambda>(q, r). case r of None \<Rightarrow> 0 | Some x \<Rightarrow> ans_points_earned x)
             (case matching d aid q of [] \<Rightarrow> [(q, None)] | rs \<Rightarrow> map (\<lambda>r. (q, Some r)) rs))
        = sum_list (map ans_points_earned (matching d aid q))" for q
    by (cases "matching d aid q") (simp_all add: comp_def)
  show ?thesis
    unfolding scoreData_def score_rows_def Let_def sum_list_concat_map
    by (simp add: a b)
qed

lemma matching_le1:
  assumes "keys_ok d"
  shows "length (matching d aid q) \<le> 1"
proof -
  from assms have "distinct (map (\<lambda>r. (ans_attempt_id r, ans_question_id r)) (attempt_answers d))"
    by (simp add: keys_ok_def)
  from distinct_key_filter_le1 [OF this, of "(aid, q_id q)"]
  have "length (filter (\<lambda>r. (ans_attempt_id r, ans_question_id r) = (aid, q_id q)) (attempt_answers d)) \<le> 1" .
  moreover have "filter (\<lambda>r. (ans_attempt_id r, ans_question_id r) = (aid, q_id q)) (attempt_answers d)
      = matching d aid q"
    unfolding matching_def by (rule filter_cong) auto
  ultimately show ?thesis by simp
qed

lemma scoreData_total:
  assumes "keys_ok d"
  shows "fst (scoreData d aid qz) = quiz_weight d qz"
proof -
  have "(if matching d aid q = [] then q_points q
         else int (length (matching d aid q)) * q_points q) = q_points q" for q
    using matching_le1 [OF assms, of aid q]
    by (cases "matching d aid q") auto
  then show ?thesis by (simp add: scoreData_sums quiz_weight_def)
qed

lemma sum_list_filter_Cons:
  "sum_list (map f (filter P (x # xs))) = (if P x then f x else (0::int)) + sum_list (map f (filter P xs))"
  by simp

lemma join_sum_swap:
  assumes "distinct (map q_id qs)"
    and "\<forall>r \<in> set rs. ans_attempt_id r = aid \<longrightarrow> (\<exists>q \<in> set qs. q_id q = ans_question_id r)"
  shows "sum_list (map (\<lambda>q. sum_list (map ans_points_earned
             (filter (\<lambda>r. q_id q = ans_question_id r \<and> ans_attempt_id r = aid) rs))) qs)
       = sum_list (map ans_points_earned (filter (\<lambda>r. ans_attempt_id r = aid) rs))"
  using assms(2)
proof (induction rs)
  case Nil
  then show ?case by simp
next
  case (Cons r rs)
  have split: "sum_list (map (\<lambda>q. sum_list (map ans_points_earned
             (filter (\<lambda>r. q_id q = ans_question_id r \<and> ans_attempt_id r = aid) (r # rs)))) qs)
      = sum_list (map (\<lambda>q. if q_id q = ans_question_id r \<and> ans_attempt_id r = aid
                            then ans_points_earned r else 0) qs)
        + sum_list (map (\<lambda>q. sum_list (map ans_points_earned
             (filter (\<lambda>r. q_id q = ans_question_id r \<and> ans_attempt_id r = aid) rs))) qs)"
    unfolding sum_list_filter_Cons by (simp add: sum_list_addf)
  have first: "sum_list (map (\<lambda>q. if q_id q = ans_question_id r \<and> ans_attempt_id r = aid
                            then ans_points_earned r else 0) qs)
      = (if ans_attempt_id r = aid then ans_points_earned r else 0)"
  proof (cases "ans_attempt_id r = aid")
    case True
    with Cons.prems have "\<exists>q \<in> set qs. q_id q = ans_question_id r" by simp
    from sum_list_single_key [OF assms(1) this, of "ans_points_earned r"] True
    show ?thesis by simp
  next
    case False
    then show ?thesis by simp
  qed
  from Cons.prems have "\<forall>r \<in> set rs. ans_attempt_id r = aid \<longrightarrow> (\<exists>q \<in> set qs. q_id q = ans_question_id r)"
    by simp
  from Cons.IH [OF this] split first show ?case by simp
qed

lemma scoreData_earned:
  assumes "catalog_ok d"
    and "\<forall>r \<in> set (attempt_answers d). ans_attempt_id r = aid \<longrightarrow>
           (\<exists>q \<in> set (questions d). q_id q = ans_question_id r \<and> q_quiz_id q = qz)"
  shows "snd (scoreData d aid qz) = recorded_points d aid"
proof -
  from assms(1) have "distinct (map q_id (filter (\<lambda>q. q_quiz_id q = qz) (questions d)))"
    by (simp add: catalog_ok_def distinct_map_filter)
  moreover from assms(2)
  have "\<forall>r \<in> set (attempt_answers d). ans_attempt_id r = aid \<longrightarrow>
          (\<exists>q \<in> set (filter (\<lambda>q. q_quiz_id q = qz) (questions d)). q_id q = ans_question_id r)"
    by auto
  ultimately show ?thesis
    by (simp add: scoreData_sums matching_def recorded_points_def join_sum_swap)
qed

lemma matching_points:
  assumes inv: "ledger_inv d" and q: "q \<in> set (questions d)"
  shows "0 \<le> sum_list (map ans_points_earned (matching d aid q))"
    and "sum_list (map ans_points_earned (matching d aid q)) \<le> q_points q"
proof -
  from inv have c: "catalog_ok d" and k: "keys_ok d" and a: "answers_ok d"
    by (simp_all add: ledger_inv_def)
  from c q have pos: "0 < q_points q" by (simp add: catalog_ok_def)
  have each: "ans_points_earned r = 0 \<or> ans_points_earned r = q_points q"
    if "r \<in> set (matching d aid q)" for r
  proof -
    from that have r: "r \<in> set (attempt_answers d)" "q_id q = ans_question_id r"
      by (simp_all add: matching_def)
    with a obtain q' where q': "q' \<in> set (questions d)" "q_id q' = ans_question_id r"
      "ans_points_earned r = 0 \<or> ans_points_earned r = q_points q'"
      by (auto simp: answers_ok_def)
    from c have "distinct (map q_id (questions d))" by (simp add: catalog_ok_def)
    with q q' r(2) have "q' = q" by (auto simp: distinct_map inj_on_def)
    with q'(3) show ?thesis by simp
  qed
  have "0 \<le> sum_list (map ans_points_earned (matching d aid q)) \<and>
        sum_list (map ans_points_earned (matching d aid q)) \<le> q_points q"
  proof (cases "matching d aid q")
    case Nil
    with pos show ?thesis by simp
  next
    case (Cons r rs)
    with matching_le1 [OF k, of aid q] have rs: "rs = []" by simp
    from Cons have "r \<in> set (matching d aid q)" by simp
    from each [OF this] pos Cons rs show ?thesis by auto
  qed
  then show "0 \<le> sum_list (map ans_points_earned (matching d aid q))"
    and "sum_list (map ans_points_earned (matching d aid q)) \<le> q_points q" by simp_all
qed

lemma scoreData_bounds:
  assumes inv: "ledger_inv d"
  shows "0 \<le> snd (scoreData d aid qz)" and "snd (scoreData d aid qz) \<le> fst (scoreData d aid qz)"
proof -
  from inv have k: "keys_ok d" by (simp add: ledger_inv_def)
  have "0 \<le> sum_list (map (\<lambda>q. sum_list (map ans_points_earned (matching d aid q)))
           (filter (\<lambda>q. q_quiz_id q = qz) (questions d)))"
    by (rule sum_list_nonneg) (auto simp: matching_points(1) [OF inv])
  then show "0 \<le> snd (scoreData d aid qz)"
    by (simp add: scoreData_sums)
  have "sum_list (map (\<lambda>q. sum_list (map ans_points_earned (matching d aid q)))
           (filter (\<lambda>q. q_quiz_id q = qz) (questions d)))
      \<le> sum_list (map q_points (filter (\<lambda>q. q_quiz_id q = qz) (questions d)))"
    by (rule sum_list_mono) (simp add: matching_points(2) [OF inv])
  moreover have "fst (scoreData d aid qz)
      = sum_list (map q_points (filter (\<lambda>q. q_quiz_id q = qz) (questions d)))"
    using scoreData_total [OF k, of aid qz] by (simp add: quiz_weight_def)
  moreover have "snd (scoreData d aid qz)
      = sum_list (map (\<lambda>q. sum_list (map ans_points_earned (matching d aid q)))
           (filter (\<lambda>q. q_quiz_id q = qz) (questions d)))"
    by (simp add: scoreData_sums)
  ultimately show "snd (scoreData d aid qz) \<le> fst (scoreData d aid qz)"
    by simp
qed

lemma compute_score_zero [simp]: "compute_score pe 0 = 0"
  by (simp add: compute_score_def)

lemma compute_score_bounds:
  assumes "0 \<le> pe" "pe \<le> tp"
  shows "0 \<le> compute_score pe tp" and "compute_score pe tp \<le> 100"
proof -
  show "0 \<le> compute_score pe tp" using assms by (simp add: compute_score_def)
  show "compute_score pe tp \<le> 100"
  proof (cases "0 < tp")
    case True
    with assms have "real_of_int pe * 100 \<le> 100 * real_of_int tp" by simp
    with True show ?thesis by (simp add: compute_score_def pos_divide_le_eq)
  next
    case False
    then show ?thesis by (simp add: compute_score_def)
  qed
qed

text \<open>In a state of the ledger, submitQuizAttempt on an in-progress attempt of the caller
  returns, and this is what it stores.\<close>

lemma submit_success:
  assumes inv: "ledger_inv d"
    and att: "find (\<lambda>a. att_id a = aid \<and> att_student_id a = sid) (quiz_attempts d) = Some att"
    and inp: "\<not> toBool (att_is_completed att)"
  shows "submitQuizAttempt d aid sid t =
     (d\<lparr>quiz_attempts :=
          map (\<lambda>a. if att_id a = aid
                    then finalize_row (compute_score (recorded_points d aid) (quiz_weight d (att_quiz_id att)))
                           (recorded_points d aid) (quiz_weight d (att_quiz_id att)) t
                           ((t - att_started_at att) div 1000) 1 a
                    else a) (quiz_attempts d)\<rparr>,
      Inr (finalize_row (compute_score (recorded_points d aid) (quiz_weight d (att_quiz_id att)))
             (recorded_points d aid) (quiz_weight d (att_quiz_id att)) t
             ((t - att_started_at att) div 1000) 1 att))"
proof -
  from inv have c: "catalog_ok d" and k: "keys_ok d" and a: "answers_ok d"
    by (simp_all add: ledger_inv_def)
  from att have att': "att \<in> set (quiz_attempts d)" "att_id att = aid"
    by (auto simp: find_Some_iff)
  let ?tp = "quiz_weight d (att_quiz_id att)" and ?pe = "recorded_points d aid"
  have own: "\<forall>r \<in> set (attempt_answers d). ans_attempt_id r = aid \<longrightarrow>
           (\<exists>q \<in> set (questions d). q_id q = ans_question_id r \<and> q_quiz_id q = att_quiz_id att)"
  proof (intro ballI impI)
    fix r assume r: "r \<in> set (attempt_answers d)" "ans_attempt_id r = aid"
    with a obtain x q where x: "x \<in> set (quiz_attempts d)" "att_id x = aid"
      and q: "q \<in> set (questions d)" "q_id q = ans_question_id r" "q_quiz_id q = att_quiz_id x"
      by (auto simp: answers_ok_def)
    from k have "distinct (map att_id (quiz_attempts d))" by (simp add: keys_ok_def)
    with x att' have "x = att" by (auto simp: distinct_map inj_on_def)
    with q show "\<exists>q \<in> set (questions d). q_id q = ans_question_id r \<and> q_quiz_id q = att_quiz_id att"
      by auto
  qed
  have sd: "scoreData d aid (att_quiz_id att) = (?tp, ?pe)"
    using scoreData_total [OF k, of aid "att_quiz_id att"] scoreData_earned [OF c own]
    by (simp add: prod_eq_iff)
  from scoreData_bounds [OF inv, of aid "att_quiz_id att"] sd
  have b: "0 \<le> ?pe" "?pe \<le> ?tp" by simp_all
  have chk: "attempt_checks (finalize_row (compute_score ?pe ?tp) ?pe ?tp t dur 1 x)" for dur x
    using compute_score_bounds [OF b] by (simp add: attempt_checks_def)
  then have u: "update_attempt d aid (compute_score ?pe ?tp) ?pe ?tp t ((t - att_started_at att) div 1000) 1
      = Some (d\<lparr>quiz_attempts :=
          map (\<lambda>a. if att_id a = aid
                    then finalize_row (compute_score ?pe ?tp) ?pe ?tp t ((t - att_started_at att) div 1000) 1 a
                    else a) (quiz_attempts d)\<rparr>)"
    by (simp add: update_attempt_def list_all_iff)
  let ?d' = "d\<lparr>quiz_attempts :=
          map (\<lambda>a. if att_id a = aid
                    then finalize_row (compute_score ?pe ?tp) ?pe ?tp t ((t - att_started_at att) div 1000) 1 a
                    else a) (quiz_attempts d)\<rparr>"
  from att att'(2) have "getCompleteAttempt ?d' aid sid =
      Inr (finalize_row (compute_score ?pe ?tp) ?pe ?tp t ((t - att_started_at att) div 1000) 1 att)"
    by (simp add: getCompleteAttempt_def find_map_same)
  with att inp sd u show ?thesis
    by (simp add: submitQuizAttempt_def fromBool_def)
qed

section \<open>The invariant of the ledger\<close>

lemma length_filter_map_le:
  "(\<And>x. P (f x) \<Longrightarrow> P x) \<Longrightarrow> length (filter P (map f xs)) \<le> length (filter P xs)"
  by (induction xs) auto

lemma toBool_01: "v = 0 \<or> v = 1 \<Longrightarrow> (\<not> toBool v) = (v = 0)"
  by (auto simp: toBool_def)

subsection \<open>A new attempt\<close>

lemma inv_start:
  assumes inv: "ledger_inv d"
    and fresh: "n \<notin> set (map att_id (quiz_attempts d))"
    and quiz: "find (\<lambda>x. qz_id x = q) (quizzes d) = Some quiz" "toBool (qz_is_published quiz)"
    and none: "find (\<lambda>a. att_student_id a = s \<and> att_quiz_id a = q \<and> att_is_completed a = fromBool False)
         (quiz_attempts d) = None"
  shows "ledger_inv (d\<lparr>quiz_attempts := quiz_attempts d @ [new_attempt s q n t]\<rparr>)"
proof -
  let ?d = "d\<lparr>quiz_attempts := quiz_attempts d @ [new_attempt s q n t]\<rparr>"
  from inv have c: "catalog_ok d" and k: "keys_ok d" and a: "answers_ok d"
    and at: "attempts_ok d" and sp: "single_in_progress d"
    by (simp_all add: ledger_inv_def)
  have 1: "catalog_ok ?d" using c by (simp add: catalog_ok_def)
  have 2: "keys_ok ?d" using k fresh by (simp add: keys_ok_def)
  have 3: "answers_ok ?d" using a by (fastforce simp: answers_ok_def)
  have 4: "attempts_ok ?d" using at quiz by (auto simp: attempts_ok_def toBool_def)
  have "in_progress d s q = []"
  proof -
    have "\<forall>x \<in> set (quiz_attempts d). \<not> (att_student_id x = s \<and> att_quiz_id x = q \<and> \<not> toBool (att_is_completed x))"
    proof (intro ballI notI)
      fix x assume x: "x \<in> set (quiz_attempts d)"
        and h: "att_student_id x = s \<and> att_quiz_id x = q \<and> \<not> toBool (att_is_completed x)"
      from at x have "att_is_completed x = 0 \<or> att_is_completed x = 1" by (simp add: attempts_ok_def)
      with h have "att_is_completed x = 0" by (simp add: toBool_01)
      with none x h show False by (auto simp: find_None_iff fromBool_def)
    qed
    then show ?thesis by (simp add: in_progress_def filter_empty_conv)
  qed
  then have 5: "single_in_progress ?d" using sp
    by (auto simp: single_in_progress_def in_progress_def)
  from 1 2 3 4 5 show ?thesis by (simp add: ledger_inv_def)
qed

subsection \<open>A new answer, an overwritten answer\<close>

lemma inv_answer_insert:
  assumes inv: "ledger_inv d"
    and att: "find (\<lambda>a. att_id a = aid) (quiz_attempts d) = Some att"
    and q: "find (\<lambda>x. q_id x = qid) (questions d) = Some q" "q_quiz_id q = att_quiz_id att"
    and pe: "pe = 0 \<or> pe = q_points q"
    and none: "find (\<lambda>r. ans_attempt_id r = aid \<and> ans_question_id r = qid) (attempt_answers d) = None"
    and fresh: "nid \<notin> set (map ans_id (attempt_answers d))"
  shows "ledger_inv (d\<lparr>attempt_answers := attempt_answers d @ [new_answer nid aid qid sel c pe t]\<rparr>)"
proof -
  let ?d = "d\<lparr>attempt_answers := attempt_answers d @ [new_answer nid aid qid sel c pe t]\<rparr>"
  from inv have c: "catalog_ok d" and k: "keys_ok d" and a: "answers_ok d"
    and at: "attempts_ok d" and sp: "single_in_progress d"
    by (simp_all add: ledger_inv_def)
  from att have att': "att \<in> set (quiz_attempts d)" "att_id att = aid"
    by (auto simp: find_Some_iff)
  from q have q': "q \<in> set (questions d)" "q_id q = qid"
    by (auto simp: find_Some_iff)
  have 1: "catalog_ok ?d" using c by (simp add: catalog_ok_def)
  from none have "(aid, qid) \<notin> set (map (\<lambda>r. (ans_attempt_id r, ans_question_id r)) (attempt_answers d))"
    by (auto simp: find_None_iff)
  then have 2: "keys_ok ?d" using k fresh by (simp add: keys_ok_def)
  have 3: "answers_ok ?d"
    unfolding answers_ok_def
  proof
    fix r assume "r \<in> set (attempt_answers ?d)"
    then consider "r \<in> set (attempt_answers d)" | "r = new_answer nid aid qid sel c pe t" by auto
    then show "\<exists>a\<in>set (quiz_attempts ?d). att_id a = ans_attempt_id r \<and>
          (\<exists>q\<in>set (questions ?d). q_id q = ans_question_id r \<and> q_quiz_id q = att_quiz_id a \<and>
             (ans_points_earned r = 0 \<or> ans_points_earned r = q_points q))"
    proof cases
      case 1
      with a show ?thesis by (simp add: answers_ok_def)
    next
      case 2
      with att' q' q(2) pe show ?thesis by auto
    qed
  qed
  have 4: "attempts_ok ?d" using at by (simp add: attempts_ok_def)
  have 5: "single_in_progress ?d" using sp by (simp add: single_in_progress_def in_progress_def)
  from 1 2 3 4 5 show ?thesis by (simp add: ledger_inv_def)
qed

lemma map_key_update:
  "(\<And>x. k (f x) = k x) \<Longrightarrow> map k (map (\<lambda>r. if P r then f r else r) xs) = map k xs"
  by (induction xs) auto

lemma inv_answer_update:
  assumes inv: "ledger_inv d"
    and att: "find (\<lambda>a. att_id a = aid) (quiz_attempts d) = Some att"
    and q: "find (\<lambda>x. q_id x = qid) (questions d) = Some q" "q_quiz_id q = att_quiz_id att"
    and pe: "pe = 0 \<or> pe = q_points q"
    and e: "find (\<lambda>r. ans_attempt_id r = aid \<and> ans_question_id r = qid) (attempt_answers d) = Some e"
  shows "ledger_inv (d\<lparr>attempt_answers :=
            map (\<lambda>r. if ans_id r = ans_id e then answer_set sel c pe t r else r) (attempt_answers d)\<rparr>)"
proof -
  let ?f = "\<lambda>r. if ans_id r = ans_id e then answer_set sel c pe t r else r"
  let ?d = "d\<lparr>attempt_answers := map ?f (attempt_answers d)\<rparr>"
  from inv have c: "catalog_ok d" and k: "keys_ok d" and a: "answers_ok d"
    and at: "attempts_ok d" and sp: "single_in_progress d"
    by (simp_all add: ledger_inv_def)
  from att have att': "att \<in> set (quiz_attempts d)" "att_id att = aid"
    by (auto simp: find_Some_iff)
  from q have q': "q \<in> set (questions d)" "q_id q = qid"
    by (auto simp: find_Some_iff)
  from e have e': "e \<in> set (attempt_answers d)" "ans_attempt_id e = aid" "ans_question_id e = qid"
    by (auto simp: find_Some_iff)
  have 1: "catalog_ok ?d" using c by (simp add: catalog_ok_def)
  have m1: "map ans_id (map ?f (attempt_answers d)) = map ans_id (attempt_answers d)"
    by (rule map_key_update) simp
  have m2: "map (\<lambda>r. (ans_attempt_id r, ans_question_id r)) (map ?f (attempt_answers d))
      = map (\<lambda>r. (ans_attempt_id r, ans_question_id r)) (attempt_answers d)"
    by (rule map_key_update) simp
  have 2: "keys_ok ?d" using k m1 m2 by (simp add: keys_ok_def del: map_map)
  have 3: "answers_ok ?d"
    unfolding answers_ok_def
  proof
    fix r assume "r \<in> set (attempt_answers ?d)"
    then obtain r0 where r0: "r0 \<in> set (attempt_answers d)" "r = ?f r0" by auto
    show "\<exists>a\<in>set (quiz_attempts ?d). att_id a = ans_attempt_id r \<and>
          (\<exists>q\<in>set (questions ?d). q_id q = ans_question_id r \<and> q_quiz_id q = att_quiz_id a \<and>
             (ans_points_earned r = 0 \<or> ans_points_earned r = q_points q))"
    proof (cases "ans_id r0 = ans_id e")
      case True
      from k have "distinct (map ans_id (attempt_answers d))" by (simp add: keys_ok_def)
      with r0(1) e'(1) True have "r0 = e" by (auto simp: distinct_map inj_on_def)
      with r0(2) e' att' q' q(2) pe show ?thesis by auto
    next
      case False
      with r0 a show ?thesis by (simp add: answers_ok_def)
    qed
  qed
  have 4: "attempts_ok ?d" using at by (simp add: attempts_ok_def)
  have 5: "single_in_progress ?d" using sp by (simp add: single_in_progress_def in_progress_def)
  from 1 2 3 4 5 show ?thesis by (simp add: ledger_inv_def)
qed

lemma inv_submitAnswer:
  assumes "ledger_inv d"
  shows "ledger_inv (fst (submitAnswer d aid qid sel nid t))"
  using answer_outcome [of d aid qid sel nid t]
proof (elim disjE exE conjE)
  fix e assume "submitAnswer d aid qid sel nid t = (d, Inl e)"
  with assms show ?thesis by simp
next
  fix att q ic d' r
  assume att: "find (\<lambda>a. att_id a = aid) (quiz_attempts d) = Some att"
    and q: "find (\<lambda>x. q_id x = qid) (questions d) = Some q" "q_quiz_id q = att_quiz_id att"
    and w: "upsert_answer d aid qid sel nid t ic (if ic then q_points q else 0) = Some d'"
    and res: "submitAnswer d aid qid sel nid t = (d', Inr r)"
  have pe: "(if ic then q_points q else 0) = 0 \<or> (if ic then q_points q else 0) = q_points q"
    by simp
  from upsert_answer_Some [OF w] have "ledger_inv d'"
  proof (elim disjE exE conjE)
    fix e assume "find (\<lambda>r. ans_attempt_id r = aid \<and> ans_question_id r = qid) (attempt_answers d) = Some e"
      and "d' = d\<lparr>attempt_answers :=
                  map (\<lambda>r. if ans_id r = ans_id e
                     then answer_set sel (fromBool ic) (if ic then q_points q else 0) t r else r)
                    (attempt_answers d)\<rparr>"
    with inv_answer_update [OF assms att q pe] show ?thesis by simp
  next
    assume "find (\<lambda>r. ans_attempt_id r = aid \<and> ans_question_id r = qid) (attempt_answers d) = None"
      and "nid \<notin> set (map ans_id (attempt_answers d))"
      and "d' = d\<lparr>attempt_answers := attempt_answers d @
                  [new_answer nid aid qid sel (fromBool ic) (if ic then q_points q else 0) t]\<rparr>"
    with inv_answer_insert [OF assms att q pe] show ?thesis by simp
  qed
  with res show ?thesis by simp
qed

lemma inv_startQuizAttempt:
  assumes "ledger_inv d"
  shows "ledger_inv (fst (startQuizAttempt d s q n t))"
  using start_effect [of d s q n t] assms inv_start [of d n q _ s t]
  by auto

subsection \<open>A finalized attempt, a deleted attempt\<close>

lemma inv_finalize:
  assumes inv: "ledger_inv d"
    and pts: "0 \<le> pe" "pe \<le> tp"
  shows "ledger_inv (d\<lparr>quiz_attempts :=
            map (\<lambda>a. if att_id a = aid then finalize_row (compute_score pe tp) pe tp sub dur 1 a else a)
              (quiz_attempts d)\<rparr>)"
proof -
  let ?f = "\<lambda>a. if att_id a = aid then finalize_row (compute_score pe tp) pe tp sub dur 1 a else a"
  let ?d = "d\<lparr>quiz_attempts := map ?f (quiz_attempts d)\<rparr>"
  from inv have c: "catalog_ok d" and k: "keys_ok d" and a: "answers_ok d"
    and at: "attempts_ok d" and sp: "single_in_progress d"
    by (simp_all add: ledger_inv_def)
  have 1: "catalog_ok ?d" using c by (simp add: catalog_ok_def)
  have m1: "map att_id (map ?f (quiz_attempts d)) = map att_id (quiz_attempts d)"
    by (rule map_key_update) simp
  have 2: "keys_ok ?d" using k m1 by (simp add: keys_ok_def del: map_map)
  have 3: "answers_ok ?d"
    unfolding answers_ok_def
  proof
    fix r assume "r \<in> set (attempt_answers ?d)"
    then have "r \<in> set (attempt_answers d)" by simp
    with a obtain x q where x: "x \<in> set (quiz_attempts d)" "att_id x = ans_attempt_id r"
      and q: "q \<in> set (questions d)" "q_id q = ans_question_id r" "q_quiz_id q = att_quiz_id x"
        "ans_points_earned r = 0 \<or> ans_points_earned r = q_points q"
      by (auto simp: answers_ok_def)
    from x(1) have "?f x \<in> set (quiz_attempts ?d)" by simp
    moreover have "att_id (?f x) = ans_attempt_id r" "att_quiz_id (?f x) = att_quiz_id x"
      using x(2) by simp_all
    ultimately show "\<exists>a\<in>set (quiz_attempts ?d). att_id a = ans_attempt_id r \<and>
          (\<exists>q\<in>set (questions ?d). q_id q = ans_question_id r \<and> q_quiz_id q = att_quiz_id a \<and>
             (ans_points_earned r = 0 \<or> ans_points_earned r = q_points q))"
      using q by (intro bexI [of _ "?f x"]) auto
  qed
  have 4: "attempts_ok ?d"
    unfolding attempts_ok_def
  proof
    fix y assume "y \<in> set (quiz_attempts ?d)"
    then obtain x where x: "x \<in> set (quiz_attempts d)" "y = ?f x" by auto
    from at x(1) have ok: "att_is_completed x = 0 \<or> att_is_completed x = 1"
      "\<exists>quiz. find (\<lambda>q. qz_id q = att_quiz_id x) (quizzes d) = Some quiz \<and> toBool (qz_is_published quiz)"
      "toBool (att_is_completed x) \<longrightarrow> finalized x"
      by (simp_all add: attempts_ok_def)
    show "(att_is_completed y = 0 \<or> att_is_completed y = 1) \<and>
        (\<exists>quiz. find (\<lambda>q. qz_id q = att_quiz_id y) (quizzes ?d) = Some quiz
                 \<and> toBool (qz_is_published quiz)) \<and>
        (toBool (att_is_completed y) \<longrightarrow> finalized y)"
    proof (cases "att_id x = aid")
      case True
      from pts have "finalized (finalize_row (compute_score pe tp) pe tp sub dur 1 x)"
        by (simp add: finalized_def)
      with True x(2) ok show ?thesis by simp
    next
      case False
      with x(2) ok show ?thesis by simp
    qed
  qed
  have 5: "single_in_progress ?d"
    unfolding single_in_progress_def in_progress_def
  proof (intro allI)
    fix s q
    have "length (filter (\<lambda>a. att_student_id a = s \<and> att_quiz_id a = q \<and> \<not> toBool (att_is_completed a))
             (map ?f (quiz_attempts d)))
        \<le> length (filter (\<lambda>a. att_student_id a = s \<and> att_quiz_id a = q \<and> \<not> toBool (att_is_completed a))
             (quiz_attempts d))"
      by (rule length_filter_map_le) (auto simp: toBool_def split: if_splits)
    also have "\<dots> \<le> 1" using sp by (simp add: single_in_progress_def in_progress_def)
    finally show "length (filter (\<lambda>a. att_student_id a = s \<and> att_quiz_id a = q \<and> \<not> toBool (att_is_completed a))
             (quiz_attempts ?d)) \<le> 1" by simp
  qed
  from 1 2 3 4 5 show ?thesis by (simp add: ledger_inv_def)
qed

lemma inv_delete:
  assumes inv: "ledger_inv d"
  shows "ledger_inv (delete_attempt d aid)"
proof -
  let ?d = "delete_attempt d aid"
  from inv have c: "catalog_ok d" and k: "keys_ok d" and a: "answers_ok d"
    and at: "attempts_ok d" and sp: "single_in_progress d"
    by (simp_all add: ledger_inv_def)
  have 1: "catalog_ok ?d" using c by (simp add: catalog_ok_def delete_attempt_def)
  have 2: "keys_ok ?d" using k by (simp add: keys_ok_def delete_attempt_def distinct_map_filter)
  have 3: "answers_ok ?d" using a by (fastforce simp: answers_ok_def delete_attempt_def)
  have 4: "attempts_ok ?d" using at by (simp add: attempts_ok_def delete_attempt_def)
  have 5: "single_in_progress ?d"
    unfolding single_in_progress_def
  proof (intro allI)
    fix s q
    have "in_progress ?d s q = filter (\<lambda>a. att_id a \<noteq> aid) (in_progress d s q)"
      by (auto simp: in_progress_def delete_attempt_def intro: filter_cong)
    then have "length (in_progress ?d s q) \<le> length (in_progress d s q)" by simp
    with sp show "length (in_progress ?d s q) \<le> 1"
      unfolding single_in_progress_def by (meson le_trans)
  qed
  from 1 2 3 4 5 show ?thesis by (simp add: ledger_inv_def)
qed

lemma inv_submitQuizAttempt:
  assumes "ledger_inv d"
  shows "ledger_inv (fst (submitQuizAttempt d aid sid t))"
  using submit_outcome [of d aid sid t]
proof (elim disjE exE conjE)
  fix e assume "submitQuizAttempt d aid sid t = (d, Inl e)"
  with assms show ?thesis by simp
next
  fix att tp pe d'
  assume sd: "scoreData d aid (att_quiz_id att) = (tp, pe)"
    and u: "update_attempt d aid (compute_score pe tp) pe tp t ((t - att_started_at att) div 1000) 1 = Some d'"
    and res: "submitQuizAttempt d aid sid t =
        (d', Inr (finalize_row (compute_score pe tp) pe tp t ((t - att_started_at att) div 1000) 1 att))"
  from scoreData_bounds [OF assms, of aid "att_quiz_id att"] sd have "0 \<le> pe" "pe \<le> tp"
    by simp_all
  from update_attempt_Some(1) [OF u] inv_finalize [OF assms this] have "ledger_inv d'" by simp
  with res show ?thesis by simp
qed

lemma inv_abandonAttempt:
  assumes "ledger_inv d"
  shows "ledger_inv (fst (abandonAttempt d aid sid))"
  using abandon_outcome [of d aid sid] assms inv_delete [of d aid] by auto

lemma inv_step: "ledger_inv d \<Longrightarrow> ledger_inv (ledger_step d op)"
  by (cases op)
    (simp_all add: inv_startQuizAttempt inv_submitAnswer inv_submitQuizAttempt inv_abandonAttempt)

lemma inv_run: "ledger_inv d \<Longrightarrow> ledger_inv (ledger_run d ops)"
  unfolding ledger_run_def by (induction ops arbitrary: d) (simp_all add: inv_step)

lemma fresh_ledger_inv: "fresh_ledger d \<Longrightarrow> ledger_inv d"
  by (simp add: fresh_ledger_def ledger_inv_def keys_ok_def answers_ok_def attempts_ok_def
      single_in_progress_def in_progress_def)

lemma reachable_inv: "fresh_ledger d \<Longrightarrow> ledger_inv (ledger_run d ops)"
  by (simp add: fresh_ledger_inv inv_run)

section \<open>Recording an answer in a state of the ledger\<close>

lemma distinct_key_filter_single:
  "distinct (map k xs) \<Longrightarrow> x \<in> set xs \<Longrightarrow> filter (\<lambda>y. k y = k x) xs = [x]"
proof (induction xs)
  case Nil
  then show ?case by simp
next
  case (Cons y ys)
  show ?case
  proof (cases "x = y")
    case True
    with Cons.prems have "k x \<notin> k ` set ys" by simp
    then have "\<forall>z \<in> set ys. k z \<noteq> k x" by (metis imageI)
    then have "filter (\<lambda>y. k y = k x) ys = []" by (simp add: filter_empty_conv)
    with True show ?thesis by simp
  next
    case False
    with Cons.prems have x: "x \<in> set ys" and "k y \<notin> k ` set ys" by simp_all
    then have "k y \<noteq> k x" by (metis imageI)
    with Cons.IH x Cons.prems show ?thesis by simp
  qed
qed

lemma filter_map_same:
  "(\<And>x. P (f x) = P x) \<Longrightarrow> filter P (map f xs) = map f (filter P xs)"
  by (induction xs) auto

lemma answer_success:
  assumes inv: "ledger_inv d"
    and att: "find (\<lambda>a. att_id a = aid) (quiz_attempts d) = Some att"
      "\<not> toBool (att_is_completed att)"
    and q: "find (\<lambda>x. q_id x = qid) (questions d) = Some q" "q_quiz_id q = att_quiz_id att"
    and g: "grade_selection d qid q sel = Inr (c, p)"
    and ne: "sel \<noteq> Some []"
    and fresh: "find (\<lambda>r. ans_attempt_id r = aid \<and> ans_question_id r = qid) (attempt_answers d) \<noteq> None
                \<or> nid \<notin> set (map ans_id (attempt_answers d))"
  shows "\<exists>d' r. submitAnswer d aid qid sel nid t = (d', Inr r) \<and>
           filter (\<lambda>r. ans_attempt_id r = aid \<and> ans_question_id r = qid) (attempt_answers d') = [r] \<and>
           ans_selected_option_id r = sel \<and> ans_is_correct r = fromBool c \<and>
           ans_points_earned r = p \<and> ans_answered_at r = t \<and>
           quiz_attempts d' = quiz_attempts d \<and> questions d' = questions d \<and>
           answer_options d' = answer_options d \<and> ledger_inv d'"
proof -
  let ?P = "\<lambda>r. ans_attempt_id r = aid \<and> ans_question_id r = qid"
  from inv have k: "keys_ok d" by (simp add: ledger_inv_def)
  have fk: "option_fk d sel"
  proof (cases "truthy sel")
    case True
    with grade_selection_Inr(2) [OF g] show ?thesis by simp
  next
    case False
    with ne have "sel = None" by (cases sel) (auto simp: truthy_def)
    then show ?thesis by (simp add: option_fk_def)
  qed
  note eq = submitAnswer_guarded [OF att q g, of nid t]
  have "\<exists>d' r. submitAnswer d aid qid sel nid t = (d', Inr r) \<and>
           filter ?P (attempt_answers d') = [r] \<and>
           ans_selected_option_id r = sel \<and> ans_is_correct r = fromBool c \<and>
           ans_points_earned r = p \<and> ans_answered_at r = t \<and>
           quiz_attempts d' = quiz_attempts d \<and> questions d' = questions d \<and>
           answer_options d' = answer_options d"
  proof (cases "find ?P (attempt_answers d)")
    case None
    with fresh have fr: "nid \<notin> set (map ans_id (attempt_answers d))" by simp
    let ?r = "new_answer nid aid qid sel (fromBool c) p t"
    let ?d = "d\<lparr>attempt_answers := attempt_answers d @ [?r]\<rparr>"
    from None have np: "(aid, qid) \<notin> set (map (\<lambda>x. (ans_attempt_id x, ans_question_id x)) (attempt_answers d))"
      and emp: "filter ?P (attempt_answers d) = []"
      by (auto simp: find_None_iff filter_empty_conv)
    from att(1) q(1) have "aid \<in> set (map att_id (quiz_attempts d))" "qid \<in> set (map q_id (questions d))"
      by (auto simp: find_Some_iff)
    with fr np fk have "insert_answer d ?r = Some ?d"
      by (simp add: insert_answer_def)
    with None have "upsert_answer d aid qid sel nid t c p = Some ?d"
      by (simp add: upsert_answer_def)
    with eq None have "submitAnswer d aid qid sel nid t = (?d, Inr ?r)"
      by (simp add: find_append_new)
    with emp show ?thesis by simp
  next
    case (Some e)
    let ?f = "\<lambda>r. if ans_id r = ans_id e then answer_set sel (fromBool c) p t r else r"
    let ?d = "d\<lparr>attempt_answers := map ?f (attempt_answers d)\<rparr>"
    from Some have e: "e \<in> set (attempt_answers d)" "ans_attempt_id e = aid" "ans_question_id e = qid"
      by (auto simp: find_Some_iff)
    from fk have "update_answer d (ans_id e) sel (fromBool c) p t = Some ?d"
      by (simp add: update_answer_def)
    with Some have "upsert_answer d aid qid sel nid t c p = Some ?d"
      by (simp add: upsert_answer_def)
    with eq Some have res: "submitAnswer d aid qid sel nid t = (?d, Inr (answer_set sel (fromBool c) p t e))"
      by (simp add: find_map_same)
    from k have "distinct (map (\<lambda>r. (ans_attempt_id r, ans_question_id r)) (attempt_answers d))"
      by (simp add: keys_ok_def)
    from distinct_key_filter_single [OF this e(1)] e(2,3)
    have "filter (\<lambda>r. (ans_attempt_id r, ans_question_id r) = (aid, qid)) (attempt_answers d) = [e]"
      by simp
    then have "filter ?P (attempt_answers d) = [e]" by simp
    then have "filter ?P (map ?f (attempt_answers d)) = [answer_set sel (fromBool c) p t e]"
      by (simp add: filter_map_same)
    with res show ?thesis by simp
  qed
  moreover have "ledger_inv (fst (submitAnswer d aid qid sel nid t))"
    using inv by (rule inv_submitAnswer)
  ultimately show ?thesis by auto
qed

section \<open>Further facts about the calls\<close>

lemma find_owner:
  "find (\<lambda>a. att_id a = i) xs = Some x \<Longrightarrow> att_student_id x = s \<Longrightarrow>
   find (\<lambda>a. att_id a = i \<and> att_student_id a = s) xs = Some x"
  by (induction xs) (auto split: if_splits)

lemma find_filter:
  "find P xs = (case filter P xs of [] \<Rightarrow> None | x # _ \<Rightarrow> Some x)"
  by (induction xs) auto

lemma filter_single_find:
  "filter P xs = [x] \<Longrightarrow> find P xs \<noteq> None"
  by (metis filter_empty_conv find_None_iff list.distinct(1))

lemma grade_selection_cong:
  "answer_options d' = answer_options d \<Longrightarrow> grade_selection d' = grade_selection d"
  by (intro ext) (simp add: grade_selection_def)

lemma in_progress_find:
  assumes "attempts_ok d"
  shows "(in_progress d s q = []) =
         (find (\<lambda>a. att_student_id a = s \<and> att_quiz_id a = q \<and> att_is_completed a = fromBool False)
            (quiz_attempts d) = None)"
proof -
  have "(\<not> toBool (att_is_completed x)) = (att_is_completed x = fromBool False)"
    if "x \<in> set (quiz_attempts d)" for x
    using assms that by (auto simp: attempts_ok_def toBool_def fromBool_def)
  then show ?thesis
    by (auto simp: in_progress_def filter_empty_conv find_None_iff)
qed

lemma step_catalog:
  "questions (ledger_step d op) = questions d"
proof (cases op)
  case (StartAttempt s q n t)
  with start_effect [of d s q n t] show ?thesis by auto
next
  case (RecordAnswer a q s n t)
  with answer_outcome [of d a q s n t] upsert_answer_Some [of d a q s n t] show ?thesis
    by (elim disjE exE conjE) fastforce+
next
  case (SubmitAttempt a s t)
  with submit_outcome [of d a s t] update_attempt_Some(1) [of d a] show ?thesis
    by (elim disjE exE conjE) fastforce+
next
  case (AbandonAttempt a s)
  with abandon_outcome [of d a s] show ?thesis by (auto simp: delete_attempt_def)
qed

lemma run_catalog: "questions (ledger_run d ops) = questions d"
  unfolding ledger_run_def by (induction ops arbitrary: d) (simp_all add: step_catalog)

lemma run_append: "ledger_run d (xs @ ys) = ledger_run (ledger_run d xs) ys"
  by (simp add: ledger_run_def)

lemma step_attempts_of_answer:
  "quiz_attempts (fst (submitAnswer d a q s n t)) = quiz_attempts d"
  using answer_outcome [of d a q s n t] upsert_answer_Some [of d a q s n t]
  by (elim disjE exE conjE) fastforce+

lemma weight_split:
  assumes "distinct (map q_id qs)" and "q \<in> set qs" and "P q"
  shows "sum_list (map q_points (filter P qs))
       = q_points q + sum_list (map q_points (filter (\<lambda>x. P x \<and> q_id x \<noteq> q_id q) qs))"
  using assms
proof (induction qs)
  case Nil
  then show ?case by simp
next
  case (Cons y ys)
  show ?case
  proof (cases "y = q")
    case True
    with Cons.prems have "q_id q \<notin> q_id ` set ys" by simp
    then have "\<forall>z \<in> set ys. q_id z \<noteq> q_id q" by (metis imageI)
    then have "filter (\<lambda>x. P x \<and> q_id x \<noteq> q_id q) ys = filter P ys"
      by (intro filter_cong) auto
    with True Cons.prems(3) show ?thesis by simp
  next
    case False
    with Cons.prems have q: "q \<in> set ys" and "q_id y \<notin> q_id ` set ys" by simp_all
    then have "q_id y \<noteq> q_id q" by (metis imageI)
    with Cons.IH [OF _ q Cons.prems(3)] Cons.prems(1) show ?thesis by simp
  qed
qed

lemma sum_filter_split:
  "sum_list (map f (filter P xs))
     = sum_list (map f (filter (\<lambda>x. P x \<and> Q x) xs))
       + (sum_list (map f (filter (\<lambda>x. P x \<and> \<not> Q x) xs)) :: int)"
  by (induction xs) auto

text \<open>Once every row with a given id is completed, no ledger call changes these rows.\<close>

lemma completed_rows_step:
  assumes ne: "filter (\<lambda>x. att_id x = A) (quiz_attempts d) \<noteq> []"
    and cmp: "\<forall>x \<in> set (quiz_attempts d). att_id x = A \<longrightarrow> toBool (att_is_completed x)"
  shows "filter (\<lambda>x. att_id x = A) (quiz_attempts (ledger_step d op))
       = filter (\<lambda>x. att_id x = A) (quiz_attempts d)"
proof (cases op)
  case (StartAttempt s q n t)
  from ne have "A \<in> set (map att_id (quiz_attempts d))"
    by (auto simp: filter_empty_conv)
  with start_effect [of d s q n t] StartAttempt show ?thesis by auto
next
  case (RecordAnswer a q s n t)
  then show ?thesis by (simp add: step_attempts_of_answer)
next
  case (SubmitAttempt a s t)
  from submit_outcome [of d a s t] show ?thesis
  proof (elim disjE exE conjE)
    fix e assume "submitQuizAttempt d a s t = (d, Inl e)"
    with SubmitAttempt show ?thesis by simp
  next
    fix att tp pe d'
    assume f: "find (\<lambda>x. att_id x = a \<and> att_student_id x = s) (quiz_attempts d) = Some att"
      and o: "\<not> toBool (att_is_completed att)"
      and u: "update_attempt d a (compute_score pe tp) pe tp t ((t - att_started_at att) div 1000) 1 = Some d'"
      and r: "submitQuizAttempt d a s t =
        (d', Inr (finalize_row (compute_score pe tp) pe tp t ((t - att_started_at att) div 1000) 1 att))"
    from f have "att \<in> set (quiz_attempts d)" "att_id att = a" by (auto simp: find_Some_iff)
    with cmp o have na: "a \<noteq> A" by auto
    let ?f = "\<lambda>x. if att_id x = a
        then finalize_row (compute_score pe tp) pe tp t ((t - att_started_at att) div 1000) 1 x else x"
    have "filter (\<lambda>x. att_id x = A) (map ?f (quiz_attempts d))
        = map ?f (filter (\<lambda>x. att_id x = A) (quiz_attempts d))"
      by (rule filter_map_same) simp
    also have "\<dots> = filter (\<lambda>x. att_id x = A) (quiz_attempts d)"
      using na by (intro map_idI) auto
    finally show ?thesis
      using SubmitAttempt r update_attempt_Some(1) [OF u] by simp
  qed
next
  case (AbandonAttempt a s)
  from abandon_outcome [of d a s] show ?thesis
  proof (elim disjE exE conjE)
    fix e assume "abandonAttempt d a s = (d, Inl e)"
    with AbandonAttempt show ?thesis by simp
  next
    fix att
    assume f: "find (\<lambda>x. att_id x = a \<and> att_student_id x = s) (quiz_attempts d) = Some att"
      and o: "\<not> toBool (att_is_completed att)"
      and r: "abandonAttempt d a s = (delete_attempt d a, Inr ())"
    from f have "att \<in> set (quiz_attempts d)" "att_id att = a" by (auto simp: find_Some_iff)
    with cmp o have na: "a \<noteq> A" by auto
    then have "filter (\<lambda>x. att_id x = A) (filter (\<lambda>x. att_id x \<noteq> a) (quiz_attempts d))
        = filter (\<lambda>x. att_id x = A) (quiz_attempts d)"
      by (auto intro: filter_cong)
    with AbandonAttempt r show ?thesis by (simp add: delete_attempt_def)
  qed
qed

lemma completed_rows_run:
  assumes "filter (\<lambda>x. att_id x = A) (quiz_attempts d) \<noteq> []"
    and "\<forall>x \<in> set (filter (\<lambda>x. att_id x = A) (quiz_attempts d)). toBool (att_is_completed x)"
  shows "filter (\<lambda>x. att_id x = A) (quiz_attempts (ledger_run d ops))
       = filter (\<lambda>x. att_id x = A) (quiz_attempts d)"
  using assms
proof (induction ops arbitrary: d)
  case Nil
  then show ?case by (simp add: ledger_run_def)
next
  case (Cons op ops)
  from Cons.prems have s: "filter (\<lambda>x. att_id x = A) (quiz_attempts (ledger_step d op))
       = filter (\<lambda>x. att_id x = A) (quiz_attempts d)"
    by (intro completed_rows_step) auto
  with Cons.prems Cons.IH [of "ledger_step d op"] show ?case
    by (simp add: ledger_run_def)
qed

lemma updateQuestion_points:
  assumes "find (\<lambda>x. q_id x = Q) (questions d) = Some q" and "0 < w"
  shows "updateQuestion d Q (Some w) =
     (d\<lparr>questions := map (\<lambda>x. if q_id x = Q then x\<lparr>q_points := w\<rparr> else x) (questions d)\<rparr>,
      Inr (q\<lparr>q_points := w\<rparr>))"
proof -
  from assms(1) have "q_id q = Q" by (auto simp: find_Some_iff)
  with assms show ?thesis
    by (simp add: updateQuestion_def update_question_def find_map_same)
qed

text \<open>What a successful submitQuizAttempt has stored, in a state that satisfies the
  keys of the schema and in which the answers of the attempt are on questions of its
  quiz; the points of the answers need not match the present weights.\<close>

lemma submit_stored_values:
  assumes k: "keys_ok d" and c: "catalog_ok d"
    and own: "\<forall>r \<in> set (attempt_answers d). ans_attempt_id r = aid \<longrightarrow>
           (\<exists>q \<in> set (questions d). q_id q = ans_question_id r \<and> q_quiz_id q = att_quiz_id att)"
    and f: "find (\<lambda>a. att_id a = aid \<and> att_student_id a = sid) (quiz_attempts d) = Some att"
    and res: "submitQuizAttempt d aid sid t = (d', Inr a)"
  shows "att_total_points a = Some (quiz_weight d (att_quiz_id att))"
    and "att_points_earned a = Some (recorded_points d aid)"
    and "att_score a = Some (compute_score (recorded_points d aid) (quiz_weight d (att_quiz_id att)))"
    and "attempt_answers d' = attempt_answers d"
proof -
  have sd: "scoreData d aid (att_quiz_id att) = (quiz_weight d (att_quiz_id att), recorded_points d aid)"
    using scoreData_total [OF k, of aid "att_quiz_id att"] scoreData_earned [OF c own]
    by (simp add: prod_eq_iff)
  from submit_outcome [of d aid sid t] res f sd obtain dur where
    a: "a = finalize_row (compute_score (recorded_points d aid) (quiz_weight d (att_quiz_id att)))
              (recorded_points d aid) (quiz_weight d (att_quiz_id att)) t dur 1 att"
    and u: "update_attempt d aid (compute_score (recorded_points d aid) (quiz_weight d (att_quiz_id att)))
              (recorded_points d aid) (quiz_weight d (att_quiz_id att)) t dur 1 = Some d'"
    by auto
  from a show "att_total_points a = Some (quiz_weight d (att_quiz_id att))"
    and "att_points_earned a = Some (recorded_points d aid)"
    and "att_score a = Some (compute_score (recorded_points d aid) (quiz_weight d (att_quiz_id att)))"
    by simp_all
  from update_attempt_Some(1) [OF u] show "attempt_answers d' = attempt_answers d" by simp
qed
section \<open>States of the whole database\<close>

text \<open>The constraints that hold in every state of the database, whatever calls of the
  attempt service and whatever changes of question weights led to it; and what
  submitQuizAttempt does in such a state.\<close>

lemma ledger_inv_schema_ok: "ledger_inv d \<Longrightarrow> schema_ok d"
proof -
  assume inv: "ledger_inv d"
  then have c: "catalog_ok d" and a: "answers_ok d" by (simp_all add: ledger_inv_def)
  have "answers_in_quiz d"
    unfolding answers_in_quiz_def
  proof
    fix r assume r: "r \<in> set (attempt_answers d)"
    with a obtain x q where x: "x \<in> set (quiz_attempts d)" "att_id x = ans_attempt_id r"
      and q: "q \<in> set (questions d)" "q_id q = ans_question_id r" "q_quiz_id q = att_quiz_id x"
        "ans_points_earned r = 0 \<or> ans_points_earned r = q_points q"
      by (auto simp: answers_ok_def)
    from c q(1) have "0 < q_points q" by (simp add: catalog_ok_def)
    with q(4) have "0 \<le> ans_points_earned r" by auto
    with x q show "0 \<le> ans_points_earned r \<and>
        (\<exists>a \<in> set (quiz_attempts d). att_id a = ans_attempt_id r \<and>
          (\<exists>q \<in> set (questions d). q_id q = ans_question_id r \<and> q_quiz_id q = att_quiz_id a))"
      by blast
  qed
  with inv show ?thesis by (simp add: schema_ok_def ledger_inv_def)
qed

lemma schema_start:
  assumes "schema_ok d" and "att_id a \<notin> set (map att_id (quiz_attempts d))"
  shows "schema_ok (d\<lparr>quiz_attempts := quiz_attempts d @ [a]\<rparr>)"
proof -
  let ?d = "d\<lparr>quiz_attempts := quiz_attempts d @ [a]\<rparr>"
  from assms have c: "catalog_ok d" and k: "keys_ok d" and r: "answers_in_quiz d"
    by (simp_all add: schema_ok_def)
  have 1: "catalog_ok ?d" using c by (simp add: catalog_ok_def)
  have 2: "keys_ok ?d" using k assms(2) by (simp add: keys_ok_def)
  have 3: "answers_in_quiz ?d" using r by (fastforce simp: answers_in_quiz_def)
  from 1 2 3 show ?thesis by (simp add: schema_ok_def)
qed

lemma schema_answer_insert:
  assumes s: "schema_ok d"
    and att: "find (\<lambda>a. att_id a = aid) (quiz_attempts d) = Some att"
    and q: "find (\<lambda>x. q_id x = qid) (questions d) = Some q" "q_quiz_id q = att_quiz_id att"
    and pe: "0 \<le> pe"
    and none: "find (\<lambda>r. ans_attempt_id r = aid \<and> ans_question_id r = qid) (attempt_answers d) = None"
    and fresh: "nid \<notin> set (map ans_id (attempt_answers d))"
  shows "schema_ok (d\<lparr>attempt_answers := attempt_answers d @ [new_answer nid aid qid sel c pe t]\<rparr>)"
proof -
  let ?d = "d\<lparr>attempt_answers := attempt_answers d @ [new_answer nid aid qid sel c pe t]\<rparr>"
  from s have c: "catalog_ok d" and k: "keys_ok d" and r: "answers_in_quiz d"
    by (simp_all add: schema_ok_def)
  from att have att': "att \<in> set (quiz_attempts d)" "att_id att = aid"
    by (auto simp: find_Some_iff)
  from q have q': "q \<in> set (questions d)" "q_id q = qid"
    by (auto simp: find_Some_iff)
  have 1: "catalog_ok ?d" using c by (simp add: catalog_ok_def)
  from none have "(aid, qid) \<notin> set (map (\<lambda>r. (ans_attempt_id r, ans_question_id r)) (attempt_answers d))"
    by (auto simp: find_None_iff)
  then have 2: "keys_ok ?d" using k fresh by (simp add: keys_ok_def)
  have 3: "answers_in_quiz ?d"
    unfolding answers_in_quiz_def
  proof
    fix x assume "x \<in> set (attempt_answers ?d)"
    then consider "x \<in> set (attempt_answers d)" | "x = new_answer nid aid qid sel c pe t" by auto
    then show "0 \<le> ans_points_earned x \<and>
        (\<exists>a \<in> set (quiz_attempts ?d). att_id a = ans_attempt_id x \<and>
          (\<exists>q \<in> set (questions ?d). q_id q = ans_question_id x \<and> q_quiz_id q = att_quiz_id a))"
    proof cases
      case 1
      with r show ?thesis by (simp add: answers_in_quiz_def)
    next
      case 2
      with att' q' q(2) pe show ?thesis by auto
    qed
  qed
  from 1 2 3 show ?thesis by (simp add: schema_ok_def)
qed

lemma schema_answer_update:
  assumes s: "schema_ok d"
    and pe: "0 \<le> pe"
    and e: "e \<in> set (attempt_answers d)"
  shows "schema_ok (d\<lparr>attempt_answers :=
            map (\<lambda>r. if ans_id r = ans_id e then answer_set sel c pe t r else r) (attempt_answers d)\<rparr>)"
proof -
  let ?f = "\<lambda>r. if ans_id r = ans_id e then answer_set sel c pe t r else r"
  let ?d = "d\<lparr>attempt_answers := map ?f (attempt_answers d)\<rparr>"
  from s have c: "catalog_ok d" and k: "keys_ok d" and r: "answers_in_quiz d"
    by (simp_all add: schema_ok_def)
  have 1: "catalog_ok ?d" using c by (simp add: catalog_ok_def)
  have m1: "map ans_id (map ?f (attempt_answers d)) = map ans_id (attempt_answers d)"
    by (rule map_key_update) simp
  have m2: "map (\<lambda>r. (ans_attempt_id r, ans_question_id r)) (map ?f (attempt_answers d))
      = map (\<lambda>r. (ans_attempt_id r, ans_question_id r)) (attempt_answers d)"
    by (rule map_key_update) simp
  have 2: "keys_ok ?d" using k m1 m2 by (simp add: keys_ok_def del: map_map)
  have 3: "answers_in_quiz ?d"
    unfolding answers_in_quiz_def
  proof
    fix x assume "x \<in> set (attempt_answers ?d)"
    then obtain x0 where x0: "x0 \<in> set (attempt_answers d)" "x = ?f x0" by auto
    from r x0(1) have ok: "0 \<le> ans_points_earned x0"
      "\<exists>a \<in> set (quiz_attempts d). att_id a = ans_attempt_id x0 \<and>
          (\<exists>q \<in> set (questions d). q_id q = ans_question_id x0 \<and> q_quiz_id q = att_quiz_id a)"
      by (simp_all add: answers_in_quiz_def)
    with x0(2) pe show "0 \<le> ans_points_earned x \<and>
        (\<exists>a \<in> set (quiz_attempts ?d). att_id a = ans_attempt_id x \<and>
          (\<exists>q \<in> set (questions ?d). q_id q = ans_question_id x \<and> q_quiz_id q = att_quiz_id a))"
      by (cases "ans_id x0 = ans_id e") simp_all
  qed
  from 1 2 3 show ?thesis by (simp add: schema_ok_def)
qed

lemma schema_finalize:
  assumes s: "schema_ok d"
  shows "schema_ok (d\<lparr>quiz_attempts :=
            map (\<lambda>a. if att_id a = aid then finalize_row sc pe tp sub dur c a else a)
              (quiz_attempts d)\<rparr>)"
proof -
  let ?f = "\<lambda>a. if att_id a = aid then finalize_row sc pe tp sub dur c a else a"
  let ?d = "d\<lparr>quiz_attempts := map ?f (quiz_attempts d)\<rparr>"
  from s have c: "catalog_ok d" and k: "keys_ok d" and r: "answers_in_quiz d"
    by (simp_all add: schema_ok_def)
  have 1: "catalog_ok ?d" using c by (simp add: catalog_ok_def)
  have m1: "map att_id (map ?f (quiz_attempts d)) = map att_id (quiz_attempts d)"
    by (rule map_key_update) simp
  have 2: "keys_ok ?d" using k m1 by (simp add: keys_ok_def del: map_map)
  have 3: "answers_in_quiz ?d"
    unfolding answers_in_quiz_def
  proof
    fix x assume "x \<in> set (attempt_answers ?d)"
    then have "x \<in> set (attempt_answers d)" by simp
    with r obtain y q where y: "y \<in> set (quiz_attempts d)" "att_id y = ans_attempt_id x"
      and q: "q \<in> set (questions d)" "q_id q = ans_question_id x" "q_quiz_id q = att_quiz_id y"
      and p: "0 \<le> ans_points_earned x"
      by (auto simp: answers_in_quiz_def)
    from y(1) have "?f y \<in> set (quiz_attempts ?d)" by simp
    moreover have "att_id (?f y) = ans_attempt_id x" "att_quiz_id (?f y) = att_quiz_id y"
      using y(2) by simp_all
    ultimately have "\<exists>a \<in> set (quiz_attempts ?d). att_id a = ans_attempt_id x \<and>
          (\<exists>q \<in> set (questions ?d). q_id q = ans_question_id x \<and> q_quiz_id q = att_quiz_id a)"
      using q by (intro bexI [of _ "?f y"]) auto
    with p show "0 \<le> ans_points_earned x \<and>
        (\<exists>a \<in> set (quiz_attempts ?d). att_id a = ans_attempt_id x \<and>
          (\<exists>q \<in> set (questions ?d). q_id q = ans_question_id x \<and> q_quiz_id q = att_quiz_id a))"
      by simp
  qed
  from 1 2 3 show ?thesis by (simp add: schema_ok_def)
qed

lemma schema_delete:
  assumes s: "schema_ok d"
  shows "schema_ok (delete_attempt d aid)"
proof -
  from s have c: "catalog_ok d" and k: "keys_ok d" and r: "answers_in_quiz d"
    by (simp_all add: schema_ok_def)
  have 1: "catalog_ok (delete_attempt d aid)" using c by (simp add: catalog_ok_def delete_attempt_def)
  have 2: "keys_ok (delete_attempt d aid)"
    using k by (simp add: keys_ok_def delete_attempt_def distinct_map_filter)
  have 3: "answers_in_quiz (delete_attempt d aid)"
    using r by (fastforce simp: answers_in_quiz_def delete_attempt_def)
  from 1 2 3 show ?thesis by (simp add: schema_ok_def)
qed

lemma schema_reweigh:
  assumes s: "schema_ok d" and w: "0 < w"
  shows "schema_ok (d\<lparr>questions :=
            map (\<lambda>x. if q_id x = qid then x\<lparr>q_points := w\<rparr> else x) (questions d)\<rparr>)"
proof -
  let ?f = "\<lambda>x. if q_id x = qid then x\<lparr>q_points := w\<rparr> else x"
  let ?d = "d\<lparr>questions := map ?f (questions d)\<rparr>"
  from s have c: "catalog_ok d" and k: "keys_ok d" and r: "answers_in_quiz d"
    by (simp_all add: schema_ok_def)
  have ids: "map q_id (map ?f (questions d)) = map q_id (questions d)"
    by (rule map_key_update) simp
  have 1: "catalog_ok ?d" using c w ids by (auto simp: catalog_ok_def simp del: map_map)
  have 2: "keys_ok ?d" using k by (simp add: keys_ok_def)
  have 3: "answers_in_quiz ?d"
    unfolding answers_in_quiz_def
  proof
    fix x assume "x \<in> set (attempt_answers ?d)"
    then have "x \<in> set (attempt_answers d)" by simp
    with r obtain y q where y: "y \<in> set (quiz_attempts d)" "att_id y = ans_attempt_id x"
      and q: "q \<in> set (questions d)" "q_id q = ans_question_id x" "q_quiz_id q = att_quiz_id y"
      and p: "0 \<le> ans_points_earned x"
      by (auto simp: answers_in_quiz_def)
    from q have "?f q \<in> set (questions ?d)" "q_id (?f q) = ans_question_id x"
      "q_quiz_id (?f q) = att_quiz_id y" by auto
    then have "\<exists>q \<in> set (questions ?d). q_id q = ans_question_id x \<and> q_quiz_id q = att_quiz_id y"
      by blast
    with y p show "0 \<le> ans_points_earned x \<and>
        (\<exists>a \<in> set (quiz_attempts ?d). att_id a = ans_attempt_id x \<and>
          (\<exists>q \<in> set (questions ?d). q_id q = ans_question_id x \<and> q_quiz_id q = att_quiz_id a))"
      by auto
  qed
  from 1 2 3 show ?thesis by (simp add: schema_ok_def)
qed


lemma schema_startQuizAttempt:
  assumes "schema_ok d"
  shows "schema_ok (fst (startQuizAttempt d s q n t))"
  using start_effect [of d s q n t] assms schema_start [of d "new_attempt s q n t"]
  by auto

lemma schema_submitAnswer:
  assumes "schema_ok d"
  shows "schema_ok (fst (submitAnswer d aid qid sel nid t))"
  using answer_outcome [of d aid qid sel nid t]
proof (elim disjE exE conjE)
  fix e assume "submitAnswer d aid qid sel nid t = (d, Inl e)"
  with assms show ?thesis by simp
next
  fix att q ic d' r
  assume att: "find (\<lambda>a. att_id a = aid) (quiz_attempts d) = Some att"
    and q: "find (\<lambda>x. q_id x = qid) (questions d) = Some q" "q_quiz_id q = att_quiz_id att"
    and w: "upsert_answer d aid qid sel nid t ic (if ic then q_points q else 0) = Some d'"
    and res: "submitAnswer d aid qid sel nid t = (d', Inr r)"
  from assms have "catalog_ok d" by (simp add: schema_ok_def)
  moreover from q(1) have "q \<in> set (questions d)" by (auto simp: find_Some_iff)
  ultimately have "0 < q_points q" by (simp add: catalog_ok_def)
  then have pe: "0 \<le> (if ic then q_points q else 0)" by simp
  from upsert_answer_Some [OF w] have "schema_ok d'"
  proof (elim disjE exE conjE)
    fix e assume e: "find (\<lambda>r. ans_attempt_id r = aid \<and> ans_question_id r = qid) (attempt_answers d) = Some e"
      and d': "d' = d\<lparr>attempt_answers :=
                  map (\<lambda>r. if ans_id r = ans_id e
                     then answer_set sel (fromBool ic) (if ic then q_points q else 0) t r else r)
                    (attempt_answers d)\<rparr>"
    from e have "e \<in> set (attempt_answers d)" by (auto simp: find_Some_iff)
    from schema_answer_update [OF assms pe this] d' show ?thesis by simp
  next
    assume "find (\<lambda>r. ans_attempt_id r = aid \<and> ans_question_id r = qid) (attempt_answers d) = None"
      and "nid \<notin> set (map ans_id (attempt_answers d))"
      and "d' = d\<lparr>attempt_answers := attempt_answers d @
                  [new_answer nid aid qid sel (fromBool ic) (if ic then q_points q else 0) t]\<rparr>"
    with schema_answer_insert [OF assms att q pe] show ?thesis by simp
  qed
  with res show ?thesis by simp
qed

lemma schema_submitQuizAttempt:
  assumes "schema_ok d"
  shows "schema_ok (fst (submitQuizAttempt d aid sid t))"
  using submit_outcome [of d aid sid t]
proof (elim disjE exE conjE)
  fix e assume "submitQuizAttempt d aid sid t = (d, Inl e)"
  with assms show ?thesis by simp
next
  fix att tp pe d'
  assume u: "update_attempt d aid (compute_score pe tp) pe tp t ((t - att_started_at att) div 1000) 1 = Some d'"
    and res: "submitQuizAttempt d aid sid t =
        (d', Inr (finalize_row (compute_score pe tp) pe tp t ((t - att_started_at att) div 1000) 1 att))"
  from update_attempt_Some(1) [OF u] schema_finalize [OF assms] have "schema_ok d'" by simp
  with res show ?thesis by simp
qed

lemma schema_abandonAttempt:
  assumes "schema_ok d"
  shows "schema_ok (fst (abandonAttempt d aid sid))"
  using abandon_outcome [of d aid sid] assms schema_delete [of d aid] by auto

lemma schema_updateQuestion:
  assumes "schema_ok d"
  shows "schema_ok (fst (updateQuestion d qid pts))"
proof (cases pts)
  case None
  with assms show ?thesis
    by (simp add: updateQuestion_def update_question_def split: option.splits)
next
  case (Some p)
  let ?f = "\<lambda>x. if q_id x = qid then x\<lparr>q_points := p\<rparr> else x"
  show ?thesis
  proof (cases "qid \<in> set (map q_id (questions d))")
    case True
    show ?thesis
    proof (cases "0 < p")
      case True
      have "fst (updateQuestion d qid pts) = d\<lparr>questions := map ?f (questions d)\<rparr>"
        using Some True by (simp add: updateQuestion_def update_question_def split: option.splits)
      with schema_reweigh [OF assms True] show ?thesis by simp
    next
      case False
      with \<open>qid \<in> set (map q_id (questions d))\<close> Some assms show ?thesis
        by (simp add: updateQuestion_def update_question_def)
    qed
  next
    case False
    then have "map ?f (questions d) = questions d" by (intro map_idI) auto
    then have "fst (updateQuestion d qid pts) = d"
      using Some False by (simp add: updateQuestion_def update_question_def split: option.splits)
    with assms show ?thesis by simp
  qed
qed

lemma schema_step: "schema_ok d \<Longrightarrow> schema_ok (system_step d op)"
proof (cases op)
  case (Ledger l)
  assume "schema_ok d"
  then show ?thesis unfolding Ledger
    by (cases l)
       (simp_all add: schema_startQuizAttempt schema_submitAnswer schema_submitQuizAttempt
          schema_abandonAttempt)
next
  case (UpdateQuestion qid pts)
  assume "schema_ok d"
  then show ?thesis unfolding UpdateQuestion by (simp add: schema_updateQuestion)
qed

lemma schema_run: "schema_ok d \<Longrightarrow> schema_ok (system_run d ops)"
  unfolding system_run_def by (induction ops arbitrary: d) (simp_all add: schema_step)

lemma fresh_schema_ok: "fresh_ledger d \<Longrightarrow> schema_ok d"
  by (simp add: fresh_ledger_def schema_ok_def keys_ok_def answers_in_quiz_def)

lemma reachable_schema_ok: "fresh_ledger d \<Longrightarrow> schema_ok (system_run d ops)"
  by (simp add: fresh_schema_ok schema_run)



lemma schema_scoreData:
  assumes s: "schema_ok d"
    and att: "find (\<lambda>a. att_id a = aid) (quiz_attempts d) = Some att"
  shows "scoreData d aid (att_quiz_id att) = (quiz_weight d (att_quiz_id att), recorded_points d aid)"
    and "0 \<le> recorded_points d aid" and "0 \<le> quiz_weight d (att_quiz_id att)"
proof -
  from s have c: "catalog_ok d" and k: "keys_ok d" and a: "answers_in_quiz d"
    by (simp_all add: schema_ok_def)
  from att have att': "att \<in> set (quiz_attempts d)" "att_id att = aid"
    by (auto simp: find_Some_iff)
  have own: "\<forall>r \<in> set (attempt_answers d). ans_attempt_id r = aid \<longrightarrow>
           (\<exists>q \<in> set (questions d). q_id q = ans_question_id r \<and> q_quiz_id q = att_quiz_id att)"
  proof (intro ballI impI)
    fix r assume r: "r \<in> set (attempt_answers d)" "ans_attempt_id r = aid"
    with a obtain x q where x: "x \<in> set (quiz_attempts d)" "att_id x = aid"
      and q: "q \<in> set (questions d)" "q_id q = ans_question_id r" "q_quiz_id q = att_quiz_id x"
      by (auto simp: answers_in_quiz_def)
    from k have "distinct (map att_id (quiz_attempts d))" by (simp add: keys_ok_def)
    with x att' have "x = att" by (auto simp: distinct_map inj_on_def)
    with q show "\<exists>q \<in> set (questions d). q_id q = ans_question_id r \<and> q_quiz_id q = att_quiz_id att"
      by auto
  qed
  show "scoreData d aid (att_quiz_id att) = (quiz_weight d (att_quiz_id att), recorded_points d aid)"
    using scoreData_total [OF k, of aid "att_quiz_id att"] scoreData_earned [OF c own]
    by (simp add: prod_eq_iff)
  from a show "0 \<le> recorded_points d aid"
    unfolding recorded_points_def by (intro sum_list_nonneg) (auto simp: answers_in_quiz_def)
  from c show "0 \<le> quiz_weight d (att_quiz_id att)"
    unfolding quiz_weight_def by (intro sum_list_nonneg) (auto simp: catalog_ok_def)
qed








section \<open>The example states are states of the ledger\<close>

lemmas service_defs =
  startQuizAttempt_def submitAnswer_def submitQuizAttempt_def abandonAttempt_def
  getCompleteAttempt_def getAttemptById_def grade_selection_def upsert_answer_def
  insert_attempt_def insert_answer_def update_attempt_def update_answer_def delete_attempt_def
  option_fk_def attempt_checks_def truthy_def toBool_def fromBool_def
  new_attempt_def new_answer_def answer_set_def finalize_row_def
  scoreData_def score_rows_def matching_def compute_score_def

lemmas example_defs =
  db0_def db1_def db2_def db3_def db4_def att1_def ans1_def ans2_def att1_done_def att0_done_def

lemma fresh_db0: "fresh_ledger db0"
  by (simp add: fresh_ledger_def catalog_ok_def db0_def)

lemma start_db0: "startQuizAttempt db0 ''alice'' ''z1'' ''a1'' 1000 = (db1, Inr att1)"
  by (simp add: service_defs example_defs)

lemma answer1_db1: "submitAnswer db1 ''a1'' ''q1'' (Some ''o1a'') ''n1'' 2000
    = (db1\<lparr>attempt_answers := [ans1]\<rparr>, Inr ans1)"
  by (simp add: service_defs example_defs)

lemma answer2_db1: "submitAnswer (db1\<lparr>attempt_answers := [ans1]\<rparr>) ''a1'' ''q2'' (Some ''o2c'') ''n2'' 3000
    = (db2, Inr ans2)"
  by (simp add: service_defs example_defs)

lemma submit_db2: "submitQuizAttempt db2 ''a1'' ''alice'' 5500 = (db3, Inr att1_done)"
  by (simp add: service_defs example_defs)

lemma run_db1: "ledger_run db0 ops1 = db1"
  by (simp add: ledger_run_def ops1_def start_db0)

lemma run_db2: "ledger_run db0 ops2 = db2"
  by (simp add: ledger_run_def ops2_def ops1_def start_db0 answer1_db1 answer2_db1)

lemma run_db3: "ledger_run db0 ops3 = db3"
  by (simp add: ledger_run_def ops3_def ops2_def ops1_def start_db0 answer1_db1 answer2_db1
      submit_db2)

lemma run_db4: "ledger_run db0 ops4 = db4"
  by (simp add: ledger_run_def ops4_def service_defs example_defs)

lemma abandon_db1: "abandonAttempt db1 ''a1'' ''alice'' = (db0, Inr ())"
  by (simp add: service_defs example_defs)

lemma skip_db1: "submitAnswer db1 ''a1'' ''q2'' None ''n1'' 2000
    = (db1\<lparr>attempt_answers := [new_answer ''n1'' ''a1'' ''q2'' None 0 0 2000]\<rparr>,
       Inr (new_answer ''n1'' ''a1'' ''q2'' None 0 0 2000))"
  by (simp add: service_defs example_defs)

lemma reweigh_db1:
  "updateQuestion (db1\<lparr>attempt_answers := [ans1]\<rparr>) ''q1'' (Some 20)
     = (db1\<lparr>attempt_answers := [ans1],
            questions := [\<lparr>q_id = ''q1'', q_quiz_id = ''z1'', q_points = 20\<rparr>,
                          \<lparr>q_id = ''q2'', q_quiz_id = ''z1'', q_points = 20\<rparr>]\<rparr>,
        Inr \<lparr>q_id = ''q1'', q_quiz_id = ''z1'', q_points = 20\<rparr>)"
  by (simp add: updateQuestion_def update_question_def example_defs)

lemma submit_reweighed:
  "submitQuizAttempt (db1\<lparr>attempt_answers := [ans1],
            questions := [\<lparr>q_id = ''q1'', q_quiz_id = ''z1'', q_points = 20\<rparr>,
                          \<lparr>q_id = ''q2'', q_quiz_id = ''z1'', q_points = 20\<rparr>]\<rparr>) ''a1'' ''alice'' 5500
     = (db1\<lparr>attempt_answers := [ans1],
            questions := [\<lparr>q_id = ''q1'', q_quiz_id = ''z1'', q_points = 20\<rparr>,
                          \<lparr>q_id = ''q2'', q_quiz_id = ''z1'', q_points = 20\<rparr>],
            quiz_attempts := [att1\<lparr>att_score := Some 25, att_points_earned := Some 10,
                       att_total_points := Some 40, att_submitted_at := Some 5500,
                       att_duration_seconds := Some 4, att_is_completed := 1\<rparr>]\<rparr>,
        Inr (att1\<lparr>att_score := Some 25, att_points_earned := Some 10,
                       att_total_points := Some 40, att_submitted_at := Some 5500,
                       att_duration_seconds := Some 4, att_is_completed := 1\<rparr>))"
  by (simp add: service_defs example_defs)

subsection \<open>A weight changed under an attempt\<close>

lemmas example5_defs = ans2_right_def db5_def db5_raised_def db5_cut_def ops5_def





lemma raise_db5: "updateQuestion db5 ''q2'' (Some 50)
    = (db5_raised, Inr \<lparr>q_id = ''q2'', q_quiz_id = ''z1'', q_points = 50\<rparr>)"
  by (simp add: updateQuestion_def update_question_def example5_defs example_defs)


section \<open>The claims\<close>

subsection \<open>C1\<close>




text \<open>Without a change of weights the first case is the only one: in a state that
  ledger calls alone reach from a fresh ledger, the points recorded for an attempt never
  exceed the weight of its quiz.\<close>

lemma ledger_state_within_total:
  assumes "fresh_ledger d0" and "d = ledger_run d0 ops"
    and "getAttemptById d attemptId = Some attempt"
  shows "recorded_points d attemptId \<le> quiz_weight d (att_quiz_id attempt)"
proof -
  from assms(1,2) have inv: "ledger_inv d" by (simp add: reachable_inv)
  from assms(3) have att: "find (\<lambda>a. att_id a = attemptId) (quiz_attempts d) = Some attempt"
    by (simp add: getAttemptById_def)
  from schema_scoreData(1) [OF ledger_inv_schema_ok [OF inv] att]
    scoreData_bounds(2) [OF inv, of attemptId "att_quiz_id attempt"]
  show ?thesis by simp
qed

subsection \<open>C2\<close>

text \<open>
  C2 as the spec states it: after submitAttempt has succeeded, any further submitAttempt
  call on the attempt fails with the invalid-state error. It does not hold for a call by
  another student: after Alice's submission of \<open>a1\<close>, Bob's submitQuizAttempt on \<open>a1\<close>
  throws \<open>Attempt not found or access denied\<close>, not \<open>Attempt already completed\<close>.
\<close>

theorem completed_submit_by_other_student_counterexample:
  "submitQuizAttempt db2 ''a1'' ''alice'' 5500 = (db3, Inr att1_done) \<and>
   submitQuizAttempt db3 ''a1'' ''bob'' 6000 = (db3, Inl AttemptNotFoundOrAccessDenied) \<and>
   submitQuizAttempt db3 ''a1'' ''bob'' 6000 \<noteq> (db3, Inl AttemptAlreadyCompleted)"
  by (simp add: submit_db2) (simp add: service_defs example_defs)

text \<open>
  C2, amended. Let submitQuizAttempt have returned for an attempt in a state that ledger
  calls can reach from a fresh ledger. Then after any further ledger calls the stored row
  of the attempt is still exactly the row that the submission returned (score, points
  earned, total points, submission time, duration and completion flag included), and:
  every submitAnswer on the attempt throws \<open>Cannot modify answers for completed attempt\<close>,
  every submitQuizAttempt by its student throws \<open>Attempt already completed\<close>, every
  submitQuizAttempt by another student throws \<open>Attempt not found or access denied\<close>; each
  of these calls leaves the database as it is.
\<close>

theorem completed_attempt_is_terminal:
  assumes "fresh_ledger d0" and "d = ledger_run d0 ops"
    and "submitQuizAttempt d attemptId studentId t = (d1, Inr a)"
    and "d2 = ledger_run d1 ops'"
  shows "getAttemptById d2 attemptId = Some a \<and> toBool (att_is_completed a) \<and>
         submitAnswer d2 attemptId questionId sel answerId t' = (d2, Inl CannotModifyCompleted) \<and>
         submitQuizAttempt d2 attemptId studentId t' = (d2, Inl AttemptAlreadyCompleted) \<and>
         (\<forall>other. other \<noteq> studentId \<longrightarrow>
            submitQuizAttempt d2 attemptId other t' = (d2, Inl AttemptNotFoundOrAccessDenied))"
proof -
  let ?P = "\<lambda>x. att_id x = attemptId"
  from assms(1,2) have inv: "ledger_inv d" by (simp add: reachable_inv)
  then have dist: "distinct (map att_id (quiz_attempts d))" by (simp add: ledger_inv_def keys_ok_def)
  from submit_outcome [of d attemptId studentId t] assms(3) obtain att tp pe where
    f: "find (\<lambda>x. att_id x = attemptId \<and> att_student_id x = studentId) (quiz_attempts d) = Some att"
    and u: "update_attempt d attemptId (compute_score pe tp) pe tp t ((t - att_started_at att) div 1000) 1 = Some d1"
    and a: "a = finalize_row (compute_score pe tp) pe tp t ((t - att_started_at att) div 1000) 1 att"
    by auto
  from f have m: "att \<in> set (quiz_attempts d)" "att_id att = attemptId" "att_student_id att = studentId"
    by (auto simp: find_Some_iff)
  let ?f = "\<lambda>x. if att_id x = attemptId
      then finalize_row (compute_score pe tp) pe tp t ((t - att_started_at att) div 1000) 1 x else x"
  from distinct_key_filter_single [OF dist m(1)] m(2)
  have "filter ?P (quiz_attempts d) = [att]" by simp
  moreover have "filter ?P (map ?f (quiz_attempts d)) = map ?f (filter ?P (quiz_attempts d))"
    by (rule filter_map_same) simp
  ultimately have r1: "filter ?P (quiz_attempts d1) = [a]"
    using update_attempt_Some(1) [OF u] a m(2) by simp
  have c: "toBool (att_is_completed a)" "att_id a = attemptId" "att_student_id a = studentId"
    using a m by (simp_all add: toBool_def)
  from r1 c(1) have "filter ?P (quiz_attempts (ledger_run d1 ops')) = filter ?P (quiz_attempts d1)"
    by (intro completed_rows_run) simp_all
  with r1 assms(4) have r2: "filter ?P (quiz_attempts d2) = [a]" by simp
  then have g: "getAttemptById d2 attemptId = Some a"
    by (simp add: getAttemptById_def find_filter [of ?P])
  then have ans: "submitAnswer d2 attemptId questionId sel answerId t' = (d2, Inl CannotModifyCompleted)"
    using c(1) by (simp add: submitAnswer_def getAttemptById_def)
  have only: "x = a" if "x \<in> set (quiz_attempts d2)" "att_id x = attemptId" for x
  proof -
    from that have "x \<in> set (filter ?P (quiz_attempts d2))" by simp
    with r2 show ?thesis by simp
  qed
  from g c(3) have "find (\<lambda>x. att_id x = attemptId \<and> att_student_id x = studentId) (quiz_attempts d2) = Some a"
    by (simp add: getAttemptById_def find_owner)
  with c(1) have own: "submitQuizAttempt d2 attemptId studentId t' = (d2, Inl AttemptAlreadyCompleted)"
    by (simp add: submitQuizAttempt_def)
  have oth: "submitQuizAttempt d2 attemptId other t' = (d2, Inl AttemptNotFoundOrAccessDenied)"
    if "other \<noteq> studentId" for other
  proof -
    have "find (\<lambda>x. att_id x = attemptId \<and> att_student_id x = other) (quiz_attempts d2) = None"
      using only c(3) that by (auto simp: find_None_iff)
    then show ?thesis by (simp add: submitQuizAttempt_def)
  qed
  from g c(1) ans own oth show ?thesis by simp
qed

theorem completed_attempt_is_terminal_witness:
  "getAttemptById db3 ''a1'' = Some att1_done \<and>
   att_score att1_done = Some (100 / 3) \<and> toBool (att_is_completed att1_done) \<and>
   submitAnswer db3 ''a1'' ''q1'' (Some ''o1a'') ''n3'' 6000 = (db3, Inl CannotModifyCompleted) \<and>
   submitQuizAttempt db3 ''a1'' ''alice'' 6000 = (db3, Inl AttemptAlreadyCompleted) \<and>
   submitQuizAttempt db3 ''a1'' ''bob'' 6000 = (db3, Inl AttemptNotFoundOrAccessDenied) \<and>
   submitQuizAttempt db2 ''a1'' ''alice'' 5500 = (db3, Inr att1_done)"
proof -
  have r: "db3 = ledger_run db3 [AbandonAttempt ''a1'' ''alice'', SubmitAttempt ''a1'' ''bob'' 5600]"
    by (simp add: ledger_run_def service_defs example_defs)
  have s: "att_score att1_done = Some (100 / 3)" "''bob'' \<noteq> ''alice''"
    by (simp_all add: example_defs)
  from completed_attempt_is_terminal [OF fresh_db0 run_db2 [symmetric] submit_db2 r,
      of "''q1''" "Some ''o1a''" "''n3''" 6000]
  show ?thesis using s submit_db2 by simp
qed

subsection \<open>C3\<close>

text \<open>
  C3. In every state that ledger calls can reach from a fresh ledger, for every
  in-progress attempt \<open>A\<close> and every question \<open>Q\<close> of its quiz: when \<open>o1\<close> and \<open>o2\<close> each pass
  the validation of submitAnswer (each is \<open>null\<close> or a non-empty id of an option of \<open>Q\<close>;
  \<open>grade_selection\<close> then yields the correctness and the points) and the generated id is
  unused, submitAnswer with \<open>o1\<close> and then with \<open>o2\<close> both return, and afterwards there is
  exactly one answer row for \<open>(A, Q)\<close>, the one the second call returns: its selected
  option is \<open>o2\<close>, its correctness and points are those computed from \<open>o2\<close>.
\<close>

theorem record_answer_last_write_wins:
  assumes "fresh_ledger d0" and "d = ledger_run d0 ops"
    and "getAttemptById d attemptId = Some attempt"
    and "\<not> toBool (att_is_completed attempt)"
    and "find (\<lambda>x. q_id x = questionId) (questions d) = Some question"
    and "q_quiz_id question = att_quiz_id attempt"
    and "grade_selection d questionId question o1 = Inr (c1, p1)" and "o1 \<noteq> Some []"
    and "grade_selection d questionId question o2 = Inr (c2, p2)" and "o2 \<noteq> Some []"
    and "n1 \<notin> set (map ans_id (attempt_answers d))"
  shows "\<exists>d1 r1 d2 r2.
           submitAnswer d attemptId questionId o1 n1 t1 = (d1, Inr r1) \<and>
           submitAnswer d1 attemptId questionId o2 n2 t2 = (d2, Inr r2) \<and>
           filter (\<lambda>r. ans_attempt_id r = attemptId \<and> ans_question_id r = questionId)
             (attempt_answers d2) = [r2] \<and>
           ans_selected_option_id r2 = o2 \<and> ans_is_correct r2 = fromBool c2 \<and>
           ans_points_earned r2 = p2 \<and> p2 = (if c2 then q_points question else 0) \<and>
           ans_answered_at r2 = t2"
proof -
  from assms(1,2) have inv: "ledger_inv d" by (simp add: reachable_inv)
  from assms(3) have att: "find (\<lambda>a. att_id a = attemptId) (quiz_attempts d) = Some attempt"
    by (simp add: getAttemptById_def)
  from assms(11) have fr: "find (\<lambda>r. ans_attempt_id r = attemptId \<and> ans_question_id r = questionId)
       (attempt_answers d) \<noteq> None \<or> n1 \<notin> set (map ans_id (attempt_answers d))" by simp
  from answer_success [OF inv att assms(4,5,6,7,8) fr, of t1] obtain d1 r1 where
    c1: "submitAnswer d attemptId questionId o1 n1 t1 = (d1, Inr r1) \<and>
           filter (\<lambda>r. ans_attempt_id r = attemptId \<and> ans_question_id r = questionId) (attempt_answers d1) = [r1] \<and>
           ans_selected_option_id r1 = o1 \<and> ans_is_correct r1 = fromBool c1 \<and>
           ans_points_earned r1 = p1 \<and> ans_answered_at r1 = t1 \<and>
           quiz_attempts d1 = quiz_attempts d \<and> questions d1 = questions d \<and>
           answer_options d1 = answer_options d \<and> ledger_inv d1"
    by (elim exE) (rule that)
  then have 1: "submitAnswer d attemptId questionId o1 n1 t1 = (d1, Inr r1)"
      "filter (\<lambda>r. ans_attempt_id r = attemptId \<and> ans_question_id r = questionId) (attempt_answers d1) = [r1]"
      "quiz_attempts d1 = quiz_attempts d" "questions d1 = questions d"
      "answer_options d1 = answer_options d" "ledger_inv d1"
    by simp_all
  from att 1(3) have att1: "find (\<lambda>a. att_id a = attemptId) (quiz_attempts d1) = Some attempt" by simp
  from assms(5) 1(4) have q1: "find (\<lambda>x. q_id x = questionId) (questions d1) = Some question" by simp
  from assms(9) grade_selection_cong [OF 1(5)]
  have g2: "grade_selection d1 questionId question o2 = Inr (c2, p2)" by simp
  from filter_single_find [OF 1(2)]
  have ex: "find (\<lambda>r. ans_attempt_id r = attemptId \<and> ans_question_id r = questionId)
       (attempt_answers d1) \<noteq> None \<or> n2 \<notin> set (map ans_id (attempt_answers d1))" by simp
  from answer_success [OF 1(6) att1 assms(4) q1 assms(6) g2 assms(10) ex, of t2] obtain d2 r2 where
    c2: "submitAnswer d1 attemptId questionId o2 n2 t2 = (d2, Inr r2) \<and>
           filter (\<lambda>r. ans_attempt_id r = attemptId \<and> ans_question_id r = questionId) (attempt_answers d2) = [r2] \<and>
           ans_selected_option_id r2 = o2 \<and> ans_is_correct r2 = fromBool c2 \<and>
           ans_points_earned r2 = p2 \<and> ans_answered_at r2 = t2 \<and>
           quiz_attempts d2 = quiz_attempts d1 \<and> questions d2 = questions d1 \<and>
           answer_options d2 = answer_options d1 \<and> ledger_inv d2"
    by (elim exE) (rule that)
  from grade_selection_Inr(1) [OF assms(9)] have "p2 = (if c2 then q_points question else 0)" .
  with 1(1) c2 show ?thesis
    by (intro exI [of _ d1] exI [of _ r1] exI [of _ d2] exI [of _ r2]) simp
qed

theorem record_answer_last_write_wins_witness:
  "\<exists>d1 r1 d2 r2.
     submitAnswer db1 ''a1'' ''q2'' (Some ''o2c'') ''n1'' 2000 = (d1, Inr r1) \<and>
     submitAnswer d1 ''a1'' ''q2'' (Some ''o2b'') ''n2'' 3000 = (d2, Inr r2) \<and>
     filter (\<lambda>r. ans_attempt_id r = ''a1'' \<and> ans_question_id r = ''q2'') (attempt_answers d2) = [r2] \<and>
     ans_selected_option_id r2 = Some ''o2b'' \<and> ans_is_correct r2 = 1 \<and>
     ans_points_earned r2 = 20 \<and> ans_answered_at r2 = 3000"
proof -
  have h: "getAttemptById db1 ''a1'' = Some att1" "\<not> toBool (att_is_completed att1)"
    "find (\<lambda>x. q_id x = ''q2'') (questions db1) = Some \<lparr>q_id = ''q2'', q_quiz_id = ''z1'', q_points = 20\<rparr>"
    "q_quiz_id \<lparr>q_id = ''q2'', q_quiz_id = ''z1'', q_points = 20\<rparr> = att_quiz_id att1"
    "grade_selection db1 ''q2'' \<lparr>q_id = ''q2'', q_quiz_id = ''z1'', q_points = 20\<rparr> (Some ''o2c'') = Inr (False, 0)"
    "Some ''o2c'' \<noteq> Some []"
    "grade_selection db1 ''q2'' \<lparr>q_id = ''q2'', q_quiz_id = ''z1'', q_points = 20\<rparr> (Some ''o2b'') = Inr (True, 20)"
    "Some ''o2b'' \<noteq> Some []"
    "''n1'' \<notin> set (map ans_id (attempt_answers db1))"
    by (simp_all add: service_defs example_defs)
  from record_answer_last_write_wins [OF fresh_db0 run_db1 [symmetric] h, of 2000 "''n2''" 3000]
  show ?thesis by (simp add: fromBool_def)
qed

subsection \<open>C4\<close>

text \<open>
  C4. In every state that ledger calls can reach from a fresh ledger: (1) while the
  student has an in-progress attempt on the quiz, startQuizAttempt for that student and
  quiz throws \<open>You have an incomplete attempt for this quiz\<close> and changes nothing; (2) when
  the student has none (every earlier one was completed, or abandoned and so deleted),
  the quiz is published, the student is a user and the generated id is unused,
  startQuizAttempt returns a new attempt, which is then the student's one in-progress
  attempt on the quiz, and the earlier attempts stay; (3) a student never has more than
  one in-progress attempt on a quiz.
\<close>

theorem single_in_progress_attempt:
  assumes "fresh_ledger d0" and "d = ledger_run d0 ops"
  shows "(in_progress d studentId quizId \<noteq> [] \<longrightarrow>
            startQuizAttempt d studentId quizId attemptId now = (d, Inl IncompleteAttemptExists)) \<and>
         (in_progress d studentId quizId = [] \<and>
          (\<exists>quiz. find (\<lambda>q. qz_id q = quizId) (quizzes d) = Some quiz
                   \<and> toBool (qz_is_published quiz)) \<and>
          studentId \<in> set (users d) \<and> attemptId \<notin> set (map att_id (quiz_attempts d)) \<longrightarrow>
            (\<exists>d'. startQuizAttempt d studentId quizId attemptId now
                     = (d', Inr (new_attempt studentId quizId attemptId now)) \<and>
                  quiz_attempts d' = quiz_attempts d @ [new_attempt studentId quizId attemptId now] \<and>
                  in_progress d' studentId quizId = [new_attempt studentId quizId attemptId now])) \<and>
         length (in_progress d studentId quizId) \<le> 1"
proof (intro conjI impI)
  from assms have inv: "ledger_inv d" by (simp add: reachable_inv)
  then have at: "attempts_ok d" and sp: "single_in_progress d" by (simp_all add: ledger_inv_def)
  note eq = in_progress_find [OF at, of studentId quizId]
  show "length (in_progress d studentId quizId) \<le> 1"
    using sp by (simp add: single_in_progress_def)
  {
    assume "in_progress d studentId quizId \<noteq> []"
    then obtain x where x: "x \<in> set (quiz_attempts d)" "att_student_id x = studentId"
      "att_quiz_id x = quizId"
      by (auto simp: in_progress_def filter_empty_conv)
    with at obtain quiz where quiz: "find (\<lambda>q. qz_id q = quizId) (quizzes d) = Some quiz"
      "toBool (qz_is_published quiz)" by (auto simp: attempts_ok_def)
    from \<open>in_progress d studentId quizId \<noteq> []\<close> eq obtain y where
      "find (\<lambda>a. att_student_id a = studentId \<and> att_quiz_id a = quizId
                  \<and> att_is_completed a = fromBool False) (quiz_attempts d) = Some y"
      by auto
    with quiz show "startQuizAttempt d studentId quizId attemptId now = (d, Inl IncompleteAttemptExists)"
      by (simp add: startQuizAttempt_def)
  }
  {
    assume h: "in_progress d studentId quizId = [] \<and>
          (\<exists>quiz. find (\<lambda>q. qz_id q = quizId) (quizzes d) = Some quiz
                   \<and> toBool (qz_is_published quiz)) \<and>
          studentId \<in> set (users d) \<and> attemptId \<notin> set (map att_id (quiz_attempts d))"
    then obtain quiz where quiz: "find (\<lambda>q. qz_id q = quizId) (quizzes d) = Some quiz"
      "toBool (qz_is_published quiz)" by blast
    from h eq have none: "find (\<lambda>a. att_student_id a = studentId \<and> att_quiz_id a = quizId
                  \<and> att_is_completed a = fromBool False) (quiz_attempts d) = None" by simp
    from h have fr: "attemptId \<notin> set (map att_id (quiz_attempts d))" "studentId \<in> set (users d)"
      by simp_all
    note s = start_success [OF quiz none fr, of now]
    let ?d = "d\<lparr>quiz_attempts := quiz_attempts d @ [new_attempt studentId quizId attemptId now]\<rparr>"
    from h have "in_progress ?d studentId quizId = [new_attempt studentId quizId attemptId now]"
      by (simp add: in_progress_def toBool_def)
    with s show "\<exists>d'. startQuizAttempt d studentId quizId attemptId now
                     = (d', Inr (new_attempt studentId quizId attemptId now)) \<and>
                  quiz_attempts d' = quiz_attempts d @ [new_attempt studentId quizId attemptId now] \<and>
                  in_progress d' studentId quizId = [new_attempt studentId quizId attemptId now]"
      by simp
  }
qed

theorem single_in_progress_attempt_witness:
  "startQuizAttempt db1 ''alice'' ''z1'' ''a2'' 7000 = (db1, Inl IncompleteAttemptExists) \<and>
   in_progress db1 ''alice'' ''z1'' = [att1] \<and>
   (\<exists>d'. startQuizAttempt db3 ''alice'' ''z1'' ''a2'' 7000
            = (d', Inr (new_attempt ''alice'' ''z1'' ''a2'' 7000)) \<and>
          quiz_attempts d' = [att1_done, new_attempt ''alice'' ''z1'' ''a2'' 7000] \<and>
          in_progress d' ''alice'' ''z1'' = [new_attempt ''alice'' ''z1'' ''a2'' 7000]) \<and>
   in_progress db3 ''alice'' ''z1'' = [] \<and>
   (\<exists>d'. startQuizAttempt (fst (abandonAttempt db1 ''a1'' ''alice'')) ''alice'' ''z1'' ''a2'' 7000
            = (d', Inr (new_attempt ''alice'' ''z1'' ''a2'' 7000)))"
proof -
  have p1: "in_progress db1 ''alice'' ''z1'' = [att1]"
    and p3: "in_progress db3 ''alice'' ''z1'' = []"
    and p0: "in_progress db0 ''alice'' ''z1'' = []"
    by (simp_all add: in_progress_def toBool_def example_defs)
  have q: "find (\<lambda>q. qz_id q = ''z1'') (quizzes db3) = Some \<lparr>qz_id = ''z1'', qz_is_published = 1\<rparr>"
      "find (\<lambda>q. qz_id q = ''z1'') (quizzes db0) = Some \<lparr>qz_id = ''z1'', qz_is_published = 1\<rparr>"
      "toBool (qz_is_published \<lparr>qz_id = ''z1'', qz_is_published = 1\<rparr>)"
      "''alice'' \<in> set (users db3)" "''a2'' \<notin> set (map att_id (quiz_attempts db3))"
      "''alice'' \<in> set (users db0)" "''a2'' \<notin> set (map att_id (quiz_attempts db0))"
      "quiz_attempts db3 = [att1_done]"
    by (simp_all add: toBool_def example_defs)
  have r0: "ledger_run db0 (ops1 @ [AbandonAttempt ''a1'' ''alice'']) = db0"
    using run_db1 by (simp add: ledger_run_def abandon_db1)
  from single_in_progress_attempt [OF fresh_db0 run_db1 [symmetric], of "''alice''" "''z1''" "''a2''" 7000]
    single_in_progress_attempt [OF fresh_db0 run_db3 [symmetric], of "''alice''" "''z1''" "''a2''" 7000]
    single_in_progress_attempt [OF fresh_db0 r0 [symmetric], of "''alice''" "''z1''" "''a2''" 7000]
    p1 p3 p0 q
  show ?thesis by (auto simp: abandon_db1)
qed

subsection \<open>C5\<close>

text \<open>
  C5. The claim asks that recordAnswer, too, rejects a caller who is not the owner of the
  attempt. submitAnswer has no \<open>studentId\<close> parameter and never reads \<open>student_id\<close>: on
  Alice's in-progress attempt \<open>a1\<close>, where submitQuizAttempt and abandonAttempt in the name
  of Bob are rejected, the same submitAnswer call that Alice would make records an
  answer, whoever makes it.
\<close>

theorem record_answer_checks_no_owner:
  "getAttemptById db1 ''a1'' = Some att1 \<and> att_student_id att1 = ''alice'' \<and>
   submitQuizAttempt db1 ''a1'' ''bob'' 2000 = (db1, Inl AttemptNotFoundOrAccessDenied) \<and>
   abandonAttempt db1 ''a1'' ''bob'' = (db1, Inl AttemptNotFoundOrAccessDenied) \<and>
   submitAnswer db1 ''a1'' ''q1'' (Some ''o1a'') ''n1'' 2000
     = (db1\<lparr>attempt_answers := [ans1]\<rparr>, Inr ans1)"
  by (simp add: answer1_db1) (simp add: service_defs example_defs)

subsection \<open>C6\<close>

text \<open>
  C6. In every state that ledger calls can reach from a fresh ledger, for every
  in-progress attempt \<open>A\<close> and every question \<open>Q\<close> of its quiz (the generated id being
  unused): submitAnswer with \<open>null\<close> returns, and afterwards there is exactly one answer
  row for \<open>(A, Q)\<close>, with no selected option, correctness \<open>0\<close> (false) and \<open>0\<close> points. And
  whenever the attempt, still in progress on the same quiz, is submitted by its student after
  any further ledger calls, the stored \<open>total_points\<close> is the points of \<open>Q\<close> plus the points
  of the other questions of the quiz.
\<close>

theorem skip_is_recorded_and_weight_counts:
  assumes "fresh_ledger d0" and "d = ledger_run d0 ops"
    and "getAttemptById d attemptId = Some attempt"
    and "\<not> toBool (att_is_completed attempt)"
    and "find (\<lambda>x. q_id x = questionId) (questions d) = Some question"
    and "q_quiz_id question = att_quiz_id attempt"
    and "answerId \<notin> set (map ans_id (attempt_answers d))"
  shows "\<exists>d1 r.
           submitAnswer d attemptId questionId None answerId t = (d1, Inr r) \<and>
           filter (\<lambda>r. ans_attempt_id r = attemptId \<and> ans_question_id r = questionId)
             (attempt_answers d1) = [r] \<and>
           ans_selected_option_id r = None \<and> ans_is_correct r = 0 \<and> ans_points_earned r = 0 \<and>
           (\<forall>ops' attempt' studentId t'.
              getAttemptById (ledger_run d1 ops') attemptId = Some attempt' \<and>
              att_student_id attempt' = studentId \<and> \<not> toBool (att_is_completed attempt') \<and>
              att_quiz_id attempt' = att_quiz_id attempt \<longrightarrow>
              (\<exists>d2 a. submitQuizAttempt (ledger_run d1 ops') attemptId studentId t' = (d2, Inr a) \<and>
                 att_total_points a =
                   Some (q_points question +
                         sum_list (map q_points
                           (filter (\<lambda>x. q_quiz_id x = att_quiz_id attempt \<and> q_id x \<noteq> questionId)
                              (questions d))))))"
proof -
  let ?P = "\<lambda>r. ans_attempt_id r = attemptId \<and> ans_question_id r = questionId"
  from assms(1,2) have inv: "ledger_inv d" by (simp add: reachable_inv)
  from assms(3) have att: "find (\<lambda>a. att_id a = attemptId) (quiz_attempts d) = Some attempt"
    by (simp add: getAttemptById_def)
  have g: "grade_selection d questionId question None = Inr (False, 0)"
    by (simp add: grade_selection_def truthy_def)
  from assms(7) have fr: "find ?P (attempt_answers d) \<noteq> None
      \<or> answerId \<notin> set (map ans_id (attempt_answers d))" by simp
  from answer_success [OF inv att assms(4,5,6) g _ fr, of t] obtain d1 r where
    c1: "submitAnswer d attemptId questionId None answerId t = (d1, Inr r) \<and>
           filter ?P (attempt_answers d1) = [r] \<and>
           ans_selected_option_id r = None \<and> ans_is_correct r = fromBool False \<and>
           ans_points_earned r = 0 \<and> ans_answered_at r = t \<and>
           quiz_attempts d1 = quiz_attempts d \<and> questions d1 = questions d \<and>
           answer_options d1 = answer_options d \<and> ledger_inv d1"
    by simp (elim exE, rule that)
  then have inv1: "ledger_inv d1" and qs1: "questions d1 = questions d" by simp_all
  from assms(5) have qm: "question \<in> set (questions d)" "q_id question = questionId"
    by (auto simp: find_Some_iff)
  from inv have dq: "distinct (map q_id (questions d))" by (simp add: ledger_inv_def catalog_ok_def)
  have later: "\<exists>d2 a. submitQuizAttempt (ledger_run d1 ops') attemptId studentId t' = (d2, Inr a) \<and>
                 att_total_points a =
                   Some (q_points question +
                         sum_list (map q_points
                           (filter (\<lambda>x. q_quiz_id x = att_quiz_id attempt \<and> q_id x \<noteq> questionId)
                              (questions d))))"
    if h: "getAttemptById (ledger_run d1 ops') attemptId = Some attempt' \<and>
              att_student_id attempt' = studentId \<and> \<not> toBool (att_is_completed attempt') \<and>
              att_quiz_id attempt' = att_quiz_id attempt"
    for ops' attempt' studentId t'
  proof -
    let ?d = "ledger_run d1 ops'"
    from inv1 have inv2: "ledger_inv ?d" by (rule inv_run)
    from h have f: "find (\<lambda>a. att_id a = attemptId \<and> att_student_id a = studentId)
        (quiz_attempts ?d) = Some attempt'"
      by (simp add: getAttemptById_def find_owner)
    from h have op: "\<not> toBool (att_is_completed attempt')" by simp
    have "questions ?d = questions d" using qs1 by (simp add: run_catalog)
    then have "quiz_weight ?d (att_quiz_id attempt')
        = sum_list (map q_points (filter (\<lambda>x. q_quiz_id x = att_quiz_id attempt) (questions d)))"
      using h by (simp add: quiz_weight_def)
    also have "\<dots> = q_points question +
          sum_list (map q_points
            (filter (\<lambda>x. q_quiz_id x = att_quiz_id attempt \<and> q_id x \<noteq> questionId) (questions d)))"
      using weight_split [OF dq qm(1), of "\<lambda>x. q_quiz_id x = att_quiz_id attempt"] assms(6) qm(2)
      by simp
    finally show ?thesis
      using submit_success [OF inv2 f op, of t'] by simp
  qed
  from c1 later show ?thesis
    by (intro exI [of _ d1] exI [of _ r]) (simp add: fromBool_def)
qed

theorem skip_is_recorded_and_weight_counts_witness:
  "\<exists>d1 r. submitAnswer db1 ''a1'' ''q2'' None ''n1'' 2000 = (d1, Inr r) \<and>
      attempt_answers d1 = [r] \<and>
      ans_selected_option_id r = None \<and> ans_is_correct r = 0 \<and> ans_points_earned r = 0 \<and>
      (\<exists>d2 a. submitQuizAttempt d1 ''a1'' ''alice'' 5500 = (d2, Inr a) \<and>
          att_total_points a = Some 30 \<and> att_points_earned a = Some 0)"
proof -
  have h: "getAttemptById db1 ''a1'' = Some att1" "\<not> toBool (att_is_completed att1)"
    "find (\<lambda>x. q_id x = ''q2'') (questions db1) = Some \<lparr>q_id = ''q2'', q_quiz_id = ''z1'', q_points = 20\<rparr>"
    "q_quiz_id \<lparr>q_id = ''q2'', q_quiz_id = ''z1'', q_points = 20\<rparr> = att_quiz_id att1"
    "''n1'' \<notin> set (map ans_id (attempt_answers db1))"
    by (simp_all add: service_defs example_defs)
  let ?d1 = "db1\<lparr>attempt_answers := [new_answer ''n1'' ''a1'' ''q2'' None 0 0 2000]\<rparr>"
  have s: "getAttemptById (ledger_run ?d1 []) ''a1'' = Some att1" "att_student_id att1 = ''alice''"
    "submitQuizAttempt ?d1 ''a1'' ''alice'' 5500
      = (?d1\<lparr>quiz_attempts := [att1\<lparr>att_score := Some 0, att_points_earned := Some 0,
                       att_total_points := Some 30, att_submitted_at := Some 5500,
                       att_duration_seconds := Some 4, att_is_completed := 1\<rparr>]\<rparr>,
         Inr (att1\<lparr>att_score := Some 0, att_points_earned := Some 0,
                       att_total_points := Some 30, att_submitted_at := Some 5500,
                       att_duration_seconds := Some 4, att_is_completed := 1\<rparr>))"
    by (simp_all add: ledger_run_def service_defs example_defs)
  from skip_is_recorded_and_weight_counts [OF fresh_db0 run_db1 [symmetric] h, of 2000]
  show ?thesis by (simp add: skip_db1 s)
qed

subsection \<open>C7\<close>

text \<open>
  C7. After any sequence of ledger calls on a fresh ledger, every completed attempt has
  a stored score \<open>s\<close> with \<open>0 \<le> s \<le> 100\<close>, and \<open>s = 0\<close> when its stored
  \<open>total_points\<close> is \<open>0\<close>; the stored score is the scoring formula applied to the stored
  \<open>points_earned\<close> and \<open>total_points\<close>, and \<open>0 \<le> points_earned \<le> total_points\<close>.
\<close>

theorem completed_score_in_bounds:
  assumes "fresh_ledger d0"
    and "a \<in> set (quiz_attempts (ledger_run d0 ops))"
    and "toBool (att_is_completed a)"
  shows "\<exists>s pe tp. att_score a = Some s \<and> att_points_earned a = Some pe \<and>
           att_total_points a = Some tp \<and>
           0 \<le> s \<and> s \<le> 100 \<and> (tp = 0 \<longrightarrow> s = 0) \<and>
           s = compute_score pe tp \<and> 0 \<le> pe \<and> pe \<le> tp"
proof -
  from assms(1) have "attempts_ok (ledger_run d0 ops)"
    using reachable_inv [of d0 ops] by (simp add: ledger_inv_def)
  with assms(2,3) have "finalized a" by (simp add: attempts_ok_def)
  then obtain s pe tp where f: "att_score a = Some s" "att_points_earned a = Some pe"
    "att_total_points a = Some tp" "0 \<le> pe" "pe \<le> tp" "s = compute_score pe tp"
    by (auto simp: finalized_def split: option.splits)
  from compute_score_bounds [OF f(4,5)] f(6) have "0 \<le> s" "s \<le> 100" by simp_all
  moreover from f(6) have "tp = 0 \<longrightarrow> s = 0" by simp
  ultimately show ?thesis using f by simp
qed

theorem completed_score_in_bounds_witness:
  "(\<exists>s pe tp. att_score att1_done = Some s \<and> att_points_earned att1_done = Some pe \<and>
      att_total_points att1_done = Some tp \<and> 0 \<le> s \<and> s \<le> 100 \<and> s = 100 / 3 \<and> tp = 30) \<and>
   (\<exists>s pe tp. att_score att0_done = Some s \<and> att_points_earned att0_done = Some pe \<and>
      att_total_points att0_done = Some tp \<and> tp = 0 \<and> s = 0) \<and>
   att1_done \<in> set (quiz_attempts db3) \<and> toBool (att_is_completed att1_done) \<and>
   att0_done \<in> set (quiz_attempts db4) \<and> toBool (att_is_completed att0_done)"
proof -
  have m: "att1_done \<in> set (quiz_attempts db3)" "toBool (att_is_completed att1_done)"
    "att0_done \<in> set (quiz_attempts db4)" "toBool (att_is_completed att0_done)"
    by (simp_all add: example_defs toBool_def)
  have v: "att_score att1_done = Some (100 / 3)" "att_total_points att1_done = Some 30"
    "att_score att0_done = Some 0" "att_total_points att0_done = Some 0"
    by (simp_all add: example_defs)
  from completed_score_in_bounds [OF fresh_db0, of att1_done ops3]
    completed_score_in_bounds [OF fresh_db0, of att0_done ops4]
    m v show ?thesis by (auto simp: run_db3 run_db4)
qed

text \<open>Whatever the state of the database, a submitQuizAttempt that returns has stored a
  score that passed the check of the schema.\<close>

lemma submit_returns_checked_score:
  assumes "submitQuizAttempt d attemptId studentId t = (d', Inr a)"
  shows "\<exists>s tp. att_score a = Some s \<and> att_total_points a = Some tp \<and>
           0 \<le> s \<and> s \<le> 100 \<and> (tp = 0 \<longrightarrow> s = 0)"
proof -
  from submit_outcome [of d attemptId studentId t] assms obtain att tp pe where
    f: "find (\<lambda>x. att_id x = attemptId \<and> att_student_id x = studentId) (quiz_attempts d) = Some att"
    and u: "update_attempt d attemptId (compute_score pe tp) pe tp t ((t - att_started_at att) div 1000) 1 = Some d'"
    and a: "a = finalize_row (compute_score pe tp) pe tp t ((t - att_started_at att) div 1000) 1 att"
    by auto
  from f have "att \<in> set (quiz_attempts d)" "att_id att = attemptId" by (auto simp: find_Some_iff)
  with update_attempt_Some(2) [OF u] a have "attempt_checks a" by simp
  with a show ?thesis by (simp add: attempt_checks_def)
qed

subsection \<open>C8\<close>

text \<open>
  C8. The claim asks for the validation error whenever a non-null \<open>selectedOptionId\<close> does
  not belong to the question. The guard of submitAnswer is \<open>if (selectedOptionId)\<close>, which
  the empty string does not pass: for \<open>selectedOptionId = ""\<close>, which is the id of no
  option, the option is not looked up, the selection is graded like a skip, and the write
  is attempted with \<open>selected_option_id = ""\<close>. The foreign key of that column rejects it,
  so the call fails with the storage error and not with
  \<open>Option not found or does not belong to this question\<close>.
\<close>

theorem empty_option_id_is_not_validated:
  "find (\<lambda>x. opt_id x = []) (answer_options db1) = None \<and>
   grade_selection db1 ''q1'' \<lparr>q_id = ''q1'', q_quiz_id = ''z1'', q_points = 10\<rparr> (Some []) = Inr (False, 0) \<and>
   submitAnswer db1 ''a1'' ''q1'' (Some []) ''n1'' 2000 = (db1, Inl StorageError) \<and>
   submitAnswer db1 ''a1'' ''q1'' (Some []) ''n1'' 2000 \<noteq> (db1, Inl OptionInvalid)"
  by (simp add: service_defs example_defs)

text \<open>The rest of the claim holds: a question that is missing or belongs to another quiz, and a
  non-empty option id that is missing or belongs to another question, are rejected with
  their validation errors; and a call that throws, for whatever reason, has written
  nothing.\<close>

lemma record_answer_rejects_question:
  assumes "getAttemptById d attemptId = Some attempt" and "\<not> toBool (att_is_completed attempt)"
    and "find (\<lambda>x. q_id x = questionId) (questions d) = None \<or>
         (\<exists>q. find (\<lambda>x. q_id x = questionId) (questions d) = Some q \<and> q_quiz_id q \<noteq> att_quiz_id attempt)"
  shows "submitAnswer d attemptId questionId sel answerId t = (d, Inl QuestionInvalid)"
  using assms by (auto simp: submitAnswer_def getAttemptById_def)

lemma record_answer_rejects_option:
  assumes "getAttemptById d attemptId = Some attempt" and "\<not> toBool (att_is_completed attempt)"
    and "find (\<lambda>x. q_id x = questionId) (questions d) = Some question"
    and "q_quiz_id question = att_quiz_id attempt"
    and "s \<noteq> []"
    and "find (\<lambda>x. opt_id x = s) (answer_options d) = None \<or>
         (\<exists>opt. find (\<lambda>x. opt_id x = s) (answer_options d) = Some opt \<and> opt_question_id opt \<noteq> questionId)"
  shows "submitAnswer d attemptId questionId (Some s) answerId t = (d, Inl OptionInvalid)"
proof -
  from assms(5,6) have "grade_selection d questionId question (Some s) = Inl OptionInvalid"
    by (auto simp: grade_selection_def truthy_def)
  with assms(1-4) show ?thesis by (simp add: submitAnswer_def getAttemptById_def)
qed

lemma record_answer_failure_writes_nothing:
  "submitAnswer d attemptId questionId sel answerId t = (d', Inl e) \<Longrightarrow> d' = d"
  by (rule answer_failure_unchanged)

subsection \<open>C9\<close>

text \<open>
  C9. Take a state that ledger calls can reach from a fresh ledger, an in-progress attempt
  \<open>A\<close> of a student, a question \<open>Q\<close> of its quiz and a correct option of \<open>Q\<close>. submitAnswer
  stores the points that \<open>Q\<close> has at that moment. If updateQuestion then gives \<open>Q\<close> the
  weight \<open>w\<close>, the stored answers stay as they are; the scoring query yields as
  \<open>points_earned\<close> the sum of the stored points of the answers of \<open>A\<close>, in which the answer
  to \<open>Q\<close> counts with the old weight, and as \<open>total_points\<close> the sum of the present
  weights, in which \<open>Q\<close> counts with \<open>w\<close>; and a submitQuizAttempt that returns has stored
  exactly these two sums and has not touched the answers.
\<close>

theorem submit_uses_stored_points_and_present_weights:
  assumes "fresh_ledger d0" and "d = ledger_run d0 ops"
    and "getAttemptById d attemptId = Some attempt"
    and "att_student_id attempt = studentId"
    and "\<not> toBool (att_is_completed attempt)"
    and "find (\<lambda>x. q_id x = questionId) (questions d) = Some question"
    and "q_quiz_id question = att_quiz_id attempt"
    and "grade_selection d questionId question sel = Inr (True, p)"
    and "answerId \<notin> set (map ans_id (attempt_answers d))"
    and "0 < w"
  shows "\<exists>d1 r d2.
           submitAnswer d attemptId questionId sel answerId t1 = (d1, Inr r) \<and>
           ans_points_earned r = q_points question \<and>
           updateQuestion d1 questionId (Some w) = (d2, Inr (question\<lparr>q_points := w\<rparr>)) \<and>
           attempt_answers d2 = attempt_answers d1 \<and>
           scoreData d2 attemptId (att_quiz_id attempt)
             = (quiz_weight d2 (att_quiz_id attempt), recorded_points d1 attemptId) \<and>
           recorded_points d1 attemptId =
             q_points question +
             sum_list (map ans_points_earned
               (filter (\<lambda>x. ans_attempt_id x = attemptId \<and> ans_question_id x \<noteq> questionId)
                  (attempt_answers d1))) \<and>
           quiz_weight d2 (att_quiz_id attempt) =
             w + sum_list (map q_points
                   (filter (\<lambda>x. q_quiz_id x = att_quiz_id attempt \<and> q_id x \<noteq> questionId)
                      (questions d))) \<and>
           (\<forall>d3 a t3. submitQuizAttempt d2 attemptId studentId t3 = (d3, Inr a) \<longrightarrow>
              att_points_earned a = Some (recorded_points d1 attemptId) \<and>
              att_total_points a = Some (quiz_weight d2 (att_quiz_id attempt)) \<and>
              attempt_answers d3 = attempt_answers d1)"
proof -
  let ?P = "\<lambda>r. ans_attempt_id r = attemptId \<and> ans_question_id r = questionId"
  let ?qz = "att_quiz_id attempt"
  from assms(1,2) have inv: "ledger_inv d" by (simp add: reachable_inv)
  from assms(3) have att: "find (\<lambda>a. att_id a = attemptId) (quiz_attempts d) = Some attempt"
    by (simp add: getAttemptById_def)
  have ne: "sel \<noteq> Some []"
    using assms(8) by (auto simp: grade_selection_def truthy_def)
  from assms(9) have fr: "find ?P (attempt_answers d) \<noteq> None
      \<or> answerId \<notin> set (map ans_id (attempt_answers d))" by simp
  from grade_selection_Inr(1) [OF assms(8)] have p: "p = q_points question" by simp
  from answer_success [OF inv att assms(5,6,7,8) ne fr, of t1] obtain d1 r where
    c1: "submitAnswer d attemptId questionId sel answerId t1 = (d1, Inr r) \<and>
           filter ?P (attempt_answers d1) = [r] \<and>
           ans_selected_option_id r = sel \<and> ans_is_correct r = fromBool True \<and>
           ans_points_earned r = p \<and> ans_answered_at r = t1 \<and>
           quiz_attempts d1 = quiz_attempts d \<and> questions d1 = questions d \<and>
           answer_options d1 = answer_options d \<and> ledger_inv d1"
    by (elim exE) (rule that)
  then have inv1: "ledger_inv d1" and qs1: "questions d1 = questions d"
    and as1: "quiz_attempts d1 = quiz_attempts d" and one: "filter ?P (attempt_answers d1) = [r]"
    and pr: "ans_points_earned r = q_points question"
    using p by simp_all
  let ?f = "\<lambda>x. if q_id x = questionId then x\<lparr>q_points := w\<rparr> else x"
  let ?d2 = "d1\<lparr>questions := map ?f (questions d1)\<rparr>"
  from assms(6) qs1 have q1: "find (\<lambda>x. q_id x = questionId) (questions d1) = Some question" by simp
  note uq = updateQuestion_points [OF q1 assms(10)]
  from assms(6) have qm: "question \<in> set (questions d)" "q_id question = questionId"
    by (auto simp: find_Some_iff)
  from inv1 have k1: "keys_ok d1" and c1': "catalog_ok d1" and a1: "answers_ok d1"
    by (simp_all add: ledger_inv_def)
  have k2: "keys_ok ?d2" using k1 by (simp add: keys_ok_def)
  have ids: "map q_id (map ?f (questions d1)) = map q_id (questions d1)"
    by (rule map_key_update) simp
  have c2: "catalog_ok ?d2"
    using c1' assms(10) ids by (auto simp: catalog_ok_def simp del: map_map)
  from att as1 have m: "attempt \<in> set (quiz_attempts d1)" "att_id attempt = attemptId"
    by (auto simp: find_Some_iff)
  have own: "\<forall>x \<in> set (attempt_answers ?d2). ans_attempt_id x = attemptId \<longrightarrow>
           (\<exists>q \<in> set (questions ?d2). q_id q = ans_question_id x \<and> q_quiz_id q = ?qz)"
  proof (intro ballI impI)
    fix x assume x: "x \<in> set (attempt_answers ?d2)" "ans_attempt_id x = attemptId"
    with a1 obtain y q where y: "y \<in> set (quiz_attempts d1)" "att_id y = attemptId"
      and q: "q \<in> set (questions d1)" "q_id q = ans_question_id x" "q_quiz_id q = att_quiz_id y"
      by (auto simp: answers_ok_def)
    from k1 have "distinct (map att_id (quiz_attempts d1))" by (simp add: keys_ok_def)
    with y m have "y = attempt" by (auto simp: distinct_map inj_on_def)
    with q have "?f q \<in> set (questions ?d2)" "q_id (?f q) = ans_question_id x" "q_quiz_id (?f q) = ?qz"
      by auto
    then show "\<exists>q \<in> set (questions ?d2). q_id q = ans_question_id x \<and> q_quiz_id q = ?qz"
      by blast
  qed
  have rp: "recorded_points ?d2 attemptId = recorded_points d1 attemptId"
    by (simp add: recorded_points_def)
  have sd: "scoreData ?d2 attemptId ?qz = (quiz_weight ?d2 ?qz, recorded_points d1 attemptId)"
    using scoreData_total [OF k2, of attemptId ?qz] scoreData_earned [OF c2 own] rp
    by (simp add: prod_eq_iff)
  have "recorded_points d1 attemptId =
      sum_list (map ans_points_earned (filter ?P (attempt_answers d1))) +
      sum_list (map ans_points_earned
        (filter (\<lambda>x. ans_attempt_id x = attemptId \<and> ans_question_id x \<noteq> questionId) (attempt_answers d1)))"
    unfolding recorded_points_def
    by (rule sum_filter_split [of _ "\<lambda>x. ans_attempt_id x = attemptId" _ "\<lambda>x. ans_question_id x = questionId"])
  with one pr have num: "recorded_points d1 attemptId =
      q_points question +
      sum_list (map ans_points_earned
        (filter (\<lambda>x. ans_attempt_id x = attemptId \<and> ans_question_id x \<noteq> questionId) (attempt_answers d1)))"
    by simp
  have den: "quiz_weight ?d2 ?qz =
      w + sum_list (map q_points
            (filter (\<lambda>x. q_quiz_id x = ?qz \<and> q_id x \<noteq> questionId) (questions d)))"
  proof -
    from c2 have dq: "distinct (map q_id (questions ?d2))" by (simp add: catalog_ok_def)
    from qm qs1 have in2: "?f question \<in> set (questions ?d2)" by auto
    have "filter (\<lambda>x. q_quiz_id x = ?qz \<and> q_id x \<noteq> questionId) (map ?f (questions d1))
        = map ?f (filter (\<lambda>x. q_quiz_id x = ?qz \<and> q_id x \<noteq> questionId) (questions d1))"
      by (rule filter_map_same) simp
    also have "\<dots> = filter (\<lambda>x. q_quiz_id x = ?qz \<and> q_id x \<noteq> questionId) (questions d1)"
      by (intro map_idI) auto
    finally have rest: "filter (\<lambda>x. q_quiz_id x = ?qz \<and> q_id x \<noteq> questionId) (questions ?d2)
        = filter (\<lambda>x. q_quiz_id x = ?qz \<and> q_id x \<noteq> questionId) (questions d)"
      using qs1 by simp
    from weight_split [OF dq in2, of "\<lambda>x. q_quiz_id x = ?qz"] assms(7) qm(2) rest
    show ?thesis by (simp add: quiz_weight_def)
  qed
  have fin: "att_points_earned a = Some (recorded_points d1 attemptId) \<and>
             att_total_points a = Some (quiz_weight ?d2 ?qz) \<and>
             attempt_answers d3 = attempt_answers d1"
    if s: "submitQuizAttempt ?d2 attemptId studentId t3 = (d3, Inr a)" for d3 a t3
  proof -
    from att as1 assms(4)
    have f: "find (\<lambda>a. att_id a = attemptId \<and> att_student_id a = studentId) (quiz_attempts ?d2)
        = Some attempt"
      by (simp add: find_owner)
    from submit_stored_values [OF k2 c2 own f s] rp show ?thesis by simp
  qed
  from c1 pr uq sd num den fin show ?thesis
    by (intro exI [of _ d1] exI [of _ r] exI [of _ ?d2]) simp
qed

theorem submit_uses_stored_points_and_present_weights_witness:
  "\<exists>d1 r d2.
     submitAnswer db1 ''a1'' ''q1'' (Some ''o1a'') ''n1'' 2000 = (d1, Inr r) \<and>
     ans_points_earned r = 10 \<and>
     updateQuestion d1 ''q1'' (Some 20) = (d2, Inr \<lparr>q_id = ''q1'', q_quiz_id = ''z1'', q_points = 20\<rparr>) \<and>
     scoreData d2 ''a1'' ''z1'' = (40, 10) \<and>
     (\<exists>d3 a. submitQuizAttempt d2 ''a1'' ''alice'' 5500 = (d3, Inr a) \<and>
        att_points_earned a = Some 10 \<and> att_total_points a = Some 40 \<and> att_score a = Some 25)"
proof -
  have h: "getAttemptById db1 ''a1'' = Some att1" "att_student_id att1 = ''alice''"
    "\<not> toBool (att_is_completed att1)"
    "find (\<lambda>x. q_id x = ''q1'') (questions db1) = Some \<lparr>q_id = ''q1'', q_quiz_id = ''z1'', q_points = 10\<rparr>"
    "q_quiz_id \<lparr>q_id = ''q1'', q_quiz_id = ''z1'', q_points = 10\<rparr> = att_quiz_id att1"
    "grade_selection db1 ''q1'' \<lparr>q_id = ''q1'', q_quiz_id = ''z1'', q_points = 10\<rparr> (Some ''o1a'') = Inr (True, 10)"
    "''n1'' \<notin> set (map ans_id (attempt_answers db1))" "(0::int) < 20"
    by (simp_all add: service_defs example_defs)
  have v: "att_quiz_id att1 = ''z1''" "ans_points_earned ans1 = 10"
    "scoreData (db1\<lparr>attempt_answers := [ans1],
            questions := [\<lparr>q_id = ''q1'', q_quiz_id = ''z1'', q_points = 20\<rparr>,
                          \<lparr>q_id = ''q2'', q_quiz_id = ''z1'', q_points = 20\<rparr>]\<rparr>) ''a1'' ''z1'' = (40, 10)"
    by (simp_all add: service_defs example_defs)
  from submit_uses_stored_points_and_present_weights [OF fresh_db0 run_db1 [symmetric] h, of 2000]
  show ?thesis
    by (simp add: answer1_db1 reweigh_db1 submit_reweighed v)
qed

text \<open>Where this stops: when updateQuestion lowers a weight so far that the points
  already stored exceed the total of the quiz, the score computed is above 100, the check
  of the schema rejects the update, and submitQuizAttempt throws. Here Alice has answered
  both questions correctly (30 points) and \<open>q2\<close> is then reduced to 1 point.\<close>

lemma submit_rejected_after_weight_cut:
  "let d = db1\<lparr>attempt_answers := [ans1, ans2\<lparr>ans_selected_option_id := Some ''o2b'',
                                      ans_is_correct := 1, ans_points_earned := 20\<rparr>]\<rparr>;
       d' = fst (updateQuestion d ''q2'' (Some 1))
   in scoreData d' ''a1'' ''z1'' = (11, 30) \<and>
      submitQuizAttempt d' ''a1'' ''alice'' 5500 = (d', Inl StorageError)"
  by (simp add: updateQuestion_def update_question_def service_defs example_defs Let_def)

subsection \<open>C10\<close>

text \<open>
  C10. For submitQuizAttempt and abandonAttempt, a call with an attempt id that does not
  exist and a call with the id of an attempt owned by a different student fail in the
  same way: both throw the one error \<open>Attempt not found or access denied\<close> and change
  nothing, so the caller cannot tell the two cases apart. (The primary key of
  \<open>quiz_attempts\<close> is the only assumption on the state.)
\<close>

theorem no_owned_attempt_same_failure:
  assumes "getAttemptById d attemptId = None \<or>
           (\<exists>a. getAttemptById d attemptId = Some a \<and> att_student_id a \<noteq> studentId)"
    and "distinct (map att_id (quiz_attempts d))"
  shows "submitQuizAttempt d attemptId studentId now = (d, Inl AttemptNotFoundOrAccessDenied) \<and>
         abandonAttempt d attemptId studentId = (d, Inl AttemptNotFoundOrAccessDenied)"
proof -
  have "\<forall>a \<in> set (quiz_attempts d). \<not> (att_id a = attemptId \<and> att_student_id a = studentId)"
  proof (intro ballI notI)
    fix a assume a: "a \<in> set (quiz_attempts d)"
      and h: "att_id a = attemptId \<and> att_student_id a = studentId"
    from assms(1) show False
    proof
      assume "getAttemptById d attemptId = None"
      with a h show False by (auto simp: getAttemptById_def find_None_iff)
    next
      assume "\<exists>b. getAttemptById d attemptId = Some b \<and> att_student_id b \<noteq> studentId"
      then obtain b where b: "find (\<lambda>a. att_id a = attemptId) (quiz_attempts d) = Some b"
        and nb: "att_student_id b \<noteq> studentId" by (auto simp: getAttemptById_def)
      from b have "b \<in> set (quiz_attempts d)" "att_id b = attemptId"
        by (auto simp: find_Some_iff)
      with a h assms(2) have "a = b" by (auto simp: distinct_map inj_on_def)
      with nb h show False by simp
    qed
  qed
  then have "find (\<lambda>a. att_id a = attemptId \<and> att_student_id a = studentId) (quiz_attempts d) = None"
    by (simp add: find_None_iff)
  then show ?thesis by (simp add: submitQuizAttempt_def abandonAttempt_def)
qed

theorem no_owned_attempt_same_failure_witness:
  "(submitQuizAttempt db1 ''a9'' ''bob'' 9 = (db1, Inl AttemptNotFoundOrAccessDenied) \<and>
    abandonAttempt db1 ''a9'' ''bob'' = (db1, Inl AttemptNotFoundOrAccessDenied)) \<and>
   (submitQuizAttempt db1 ''a1'' ''bob'' 9 = (db1, Inl AttemptNotFoundOrAccessDenied) \<and>
    abandonAttempt db1 ''a1'' ''bob'' = (db1, Inl AttemptNotFoundOrAccessDenied)) \<and>
   getAttemptById db1 ''a9'' = None \<and> getAttemptById db1 ''a1'' = Some att1 \<and>
   att_student_id att1 = ''alice''"
proof -
  have d: "distinct (map att_id (quiz_attempts db1))" by (simp add: db1_def)
  have n: "getAttemptById db1 ''a9'' = None"
    by (simp add: getAttemptById_def db1_def att1_def)
  have s: "getAttemptById db1 ''a1'' = Some att1"
    by (simp add: getAttemptById_def db1_def att1_def)
  have o: "att_student_id att1 = ''alice''" "att_student_id att1 \<noteq> ''bob''"
    by (simp_all add: att1_def)
  from no_owned_attempt_same_failure [of db1 "''a9''" "''bob''" 9] n d
    no_owned_attempt_same_failure [of db1 "''a1''" "''bob''" 9] s o
  show ?thesis by simp
qed

end
